theory Spec2Isabelle
  imports Main
begin

section \<open>Python values shared by the scripts\<close>

text \<open>
  The scripts exchange products as JSON documents (\<^verbatim>\<open>json.load\<close> / \<^verbatim>\<open>json.dump\<close>).
  A Python \<^verbatim>\<open>dict\<close> keeps insertion order, so an object is an association list;
  \<^verbatim>\<open>d[k] = v\<close> overwrites the entry in place when the key exists and appends it
  otherwise. Numbers are the integers of the catalog (counts and ids).
\<close>

datatype json =
    JNull
  | JBool bool
  | JInt int
  | JStr string
  | JList "json list"
  | JObj "(string \<times> json) list"

type_synonym dict = "(string \<times> json) list"

datatype py_error = KeyError | AttributeError | ValueError | TypeError | OverflowError

text \<open>Python truthiness (\<^verbatim>\<open>bool(v)\<close>, \<^verbatim>\<open>not v\<close>, \<^verbatim>\<open>if v\<close>).\<close>

fun truthy :: "json \<Rightarrow> bool" where
  "truthy JNull = False"
| "truthy (JBool b) = b"
| "truthy (JInt n) = (n \<noteq> 0)"
| "truthy (JStr s) = (s \<noteq> [])"
| "truthy (JList xs) = (xs \<noteq> [])"
| "truthy (JObj kvs) = (kvs \<noteq> [])"

text \<open>\<^verbatim>\<open>d.get(k)\<close>: the value, or \<^verbatim>\<open>None\<close> when the key is absent.\<close>

definition dict_get :: "dict \<Rightarrow> string \<Rightarrow> json" where
  "dict_get d k = (case map_of d k of None \<Rightarrow> JNull | Some v \<Rightarrow> v)"

text \<open>\<^verbatim>\<open>d[k] = v\<close>.\<close>

fun dict_set :: "dict \<Rightarrow> string \<Rightarrow> json \<Rightarrow> dict" where
  "dict_set [] k v = [(k, v)]"
| "dict_set ((k', v') # d) k v = (if k' = k then (k, v) # d else (k', v') # dict_set d k v)"

section \<open>Product merger (core/slides\_to\_json\_merger.py)\<close>

definition fields_to_merge :: "string list" where
  "fields_to_merge =
     [''standard'', ''description'', ''tableInMd'', ''PackagingInformation'', ''images'']"

text \<open>
  The body of the \<^verbatim>\<open>for field in fields_to_merge\<close> loop. The Excel value is read from
  the untouched \<^verbatim>\<open>excel_product\<close>, the write goes to \<^verbatim>\<open>merged_product\<close>.
\<close>

fun merge_fields :: "string list \<Rightarrow> dict \<Rightarrow> dict \<Rightarrow> dict \<Rightarrow> dict" where
  "merge_fields [] slide_data excel_product merged_product = merged_product"
| "merge_fields (field # fs) slide_data excel_product merged_product =
     (let excel_value = dict_get excel_product field;
          slide_value = dict_get slide_data field
      in merge_fields fs slide_data excel_product
           (if \<not> truthy excel_value \<and> truthy slide_value
            then dict_set merged_product field slide_value
            else merged_product))"

text \<open>
  \<^verbatim>\<open>merge_slide_data(slide_payload, excel_product)\<close>. \<^verbatim>\<open>slide_payload["data"]\<close> raises
  \<^verbatim>\<open>KeyError\<close> when the payload has no \<^verbatim>\<open>data\<close> entry, and \<^verbatim>\<open>slide_data.get\<close> raises
  \<^verbatim>\<open>AttributeError\<close> when that entry is not an object.
\<close>

definition merge_slide_data :: "dict \<Rightarrow> dict \<Rightarrow> py_error + dict" where
  "merge_slide_data slide_payload excel_product =
     (case map_of slide_payload ''data'' of
        None \<Rightarrow> Inl KeyError
      | Some (JObj slide_data) \<Rightarrow>
          Inr (merge_fields fields_to_merge slide_data excel_product excel_product)
      | Some _ \<Rightarrow> Inl AttributeError)"

text \<open>
  \<^verbatim>\<open>check_completeness(product)\<close>: the names of the required fields that are missing.
  For an object-valued \<^verbatim>\<open>PackagingInformation\<close> the field is also missing when no value
  of the object is both truthy and different from \<^verbatim>\<open>"Not specified"\<close>.
\<close>

definition meaningful :: "dict \<Rightarrow> bool" where
  "meaningful value = list_ex (\<lambda>v. truthy v \<and> v \<noteq> JStr ''Not specified'') (map snd value)"

definition field_missing :: "dict \<Rightarrow> string \<Rightarrow> bool" where
  "field_missing product field =
     (let value = dict_get product field
      in if \<not> truthy value then True
         else (case value of
                 JObj d \<Rightarrow> field = ''PackagingInformation'' \<and> \<not> meaningful d
               | _ \<Rightarrow> False))"

definition check_completeness :: "dict \<Rightarrow> string list" where
  "check_completeness product = filter (field_missing product) fields_to_merge"

text \<open>The placeholder object every spreadsheet converter of the repository writes.\<close>

definition default_packaging :: json where
  "default_packaging = JObj
     [(''packing_per_inner_box'', JInt 0),
      (''inner_boxes_per_carton'', JInt 0),
      (''loading_capacity_20GP'', JInt 0),
      (''loading_capacity_40HC'', JInt 0),
      (''additional_notes'', JStr ''Not specified'')]"

subsection \<open>The merge on a store of objects\<close>

text \<open>
  Python passes the two dictionaries by reference. The store holds the dictionary
  objects, an address is an index into it. \<^verbatim>\<open>excel_product.copy()\<close> allocates a new
  object, and every \<^verbatim>\<open>merged_product[field] = slide_value\<close> writes to that new object.
\<close>

type_synonym store = "dict list"

definition store_alloc :: "store \<Rightarrow> dict \<Rightarrow> nat \<times> store" where
  "store_alloc st d = (length st, st @ [d])"

definition store_setitem :: "store \<Rightarrow> nat \<Rightarrow> string \<Rightarrow> json \<Rightarrow> store" where
  "store_setitem st a k v = st[a := dict_set (st ! a) k v]"

fun merge_fields_st :: "string list \<Rightarrow> dict \<Rightarrow> nat \<Rightarrow> nat \<Rightarrow> store \<Rightarrow> store" where
  "merge_fields_st [] slide_data excel merged st = st"
| "merge_fields_st (field # fs) slide_data excel merged st =
     (let excel_value = dict_get (st ! excel) field;
          slide_value = dict_get slide_data field
      in merge_fields_st fs slide_data excel merged
           (if \<not> truthy excel_value \<and> truthy slide_value
            then store_setitem st merged field slide_value
            else st))"

definition merge_slide_data_st :: "store \<Rightarrow> nat \<Rightarrow> nat \<Rightarrow> py_error + (nat \<times> store)" where
  "merge_slide_data_st st slide_payload excel_product =
     (let (merged_product, st1) = store_alloc st (st ! excel_product)
      in case map_of (st ! slide_payload) ''data'' of
           None \<Rightarrow> Inl KeyError
         | Some (JObj slide_data) \<Rightarrow>
             Inr (merged_product,
                  merge_fields_st fields_to_merge slide_data excel_product merged_product st1)
         | Some _ \<Rightarrow> Inl AttributeError)"

section \<open>Properties of the merger\<close>

lemma map_of_dict_set: "map_of (dict_set d k v) = (map_of d)(k \<mapsto> v)"
  by (induction d) (auto simp: fun_eq_iff)

lemma merge_fields_other:
  "k \<notin> set fs \<Longrightarrow> map_of (merge_fields fs sd ex m) k = map_of m k"
  by (induction fs arbitrary: m) (auto simp: Let_def map_of_dict_set)

lemma merge_fields_field:
  "distinct fs \<Longrightarrow> f \<in> set fs \<Longrightarrow>
   map_of (merge_fields fs sd ex m) f =
     (if \<not> truthy (dict_get ex f) \<and> truthy (dict_get sd f)
      then Some (dict_get sd f) else map_of m f)"
  by (induction fs arbitrary: m) (auto simp: Let_def map_of_dict_set merge_fields_other)

lemma distinct_fields_to_merge: "distinct fields_to_merge"
  by (simp add: fields_to_merge_def)

lemma merge_fields_st_eq:
  "m < length st \<Longrightarrow> ep \<noteq> m \<Longrightarrow>
   merge_fields_st fs sd ep m st = st[m := merge_fields fs sd (st ! ep) (st ! m)]"
proof (induction fs arbitrary: st)
  case Nil
  then show ?case by simp
next
  case (Cons f fs)
  show ?case
  proof (cases "\<not> truthy (dict_get (st ! ep) f) \<and> truthy (dict_get sd f)")
    case True
    let ?st = "store_setitem st m f (dict_get sd f)"
    have len: "m < length ?st" using Cons.prems by (simp add: store_setitem_def)
    have ep: "?st ! ep = st ! ep" using Cons.prems by (simp add: store_setitem_def)
    have mm: "?st ! m = dict_set (st ! m) f (dict_get sd f)"
      using Cons.prems by (simp add: store_setitem_def)
    have "merge_fields_st (f # fs) sd ep m st = merge_fields_st fs sd ep m ?st"
      using True by (simp add: Let_def)
    also have "\<dots> = ?st[m := merge_fields fs sd (?st ! ep) (?st ! m)]"
      using Cons.IH [OF len Cons.prems(2)] .
    also have "\<dots> = st[m := merge_fields (f # fs) sd (st ! ep) (st ! m)]"
      unfolding ep mm using True by (simp add: Let_def store_setitem_def)
    finally show ?thesis .
  next
    case False
    then show ?thesis using Cons.IH [OF Cons.prems] by (auto simp: Let_def)
  qed
qed

text \<open>
  Claim C5. For each of the five mergeable fields the merged product holds the slide
  value exactly when the Excel value is falsy and the slide value is truthy; otherwise
  it holds what the Excel product held (the existing value wins, and an absent field
  stays absent). Merging an existing description \<^verbatim>\<open>"Existing"\<close> with the slide description
  \<^verbatim>\<open>"New"\<close> gives \<^verbatim>\<open>"Existing"\<close>; merging an existing description \<^verbatim>\<open>""\<close> gives \<^verbatim>\<open>"New"\<close>.
\<close>

theorem merge_slide_data_precedence:
  assumes "map_of slide_payload ''data'' = Some (JObj slide_data)"
      and "field \<in> set fields_to_merge"
  shows "(\<exists>merged. merge_slide_data slide_payload excel_product = Inr merged \<and>
            map_of merged field =
              (if \<not> truthy (dict_get excel_product field) \<and> truthy (dict_get slide_data field)
               then Some (dict_get slide_data field)
               else map_of excel_product field)) \<and>
         merge_slide_data [(''data'', JObj [(''description'', JStr ''New'')])]
             [(''description'', JStr ''Existing'')]
           = Inr [(''description'', JStr ''Existing'')] \<and>
         merge_slide_data [(''data'', JObj [(''description'', JStr ''New'')])]
             [(''description'', JStr [])]
           = Inr [(''description'', JStr ''New'')]"
proof -
  have "merge_slide_data slide_payload excel_product =
          Inr (merge_fields fields_to_merge slide_data excel_product excel_product)"
    using assms(1) by (simp add: merge_slide_data_def)
  moreover have "map_of (merge_fields fields_to_merge slide_data excel_product excel_product) field =
              (if \<not> truthy (dict_get excel_product field) \<and> truthy (dict_get slide_data field)
               then Some (dict_get slide_data field)
               else map_of excel_product field)"
    using merge_fields_field [OF distinct_fields_to_merge assms(2)] .
  moreover have "merge_slide_data [(''data'', JObj [(''description'', JStr ''New'')])]
             [(''description'', JStr ''Existing'')]
           = Inr [(''description'', JStr ''Existing'')]"
    by (simp add: merge_slide_data_def fields_to_merge_def dict_get_def)
  moreover have "merge_slide_data [(''data'', JObj [(''description'', JStr ''New'')])]
             [(''description'', JStr [])]
           = Inr [(''description'', JStr ''New'')]"
    by (simp add: merge_slide_data_def fields_to_merge_def dict_get_def)
  ultimately show ?thesis by simp
qed

theorem merge_slide_data_precedence_witness:
  "\<exists>merged. merge_slide_data
       [(''data'', JObj [(''standard'', JStr ''ISO 7886''), (''images'', JList [JInt 7])])]
       [(''name'', JStr ''Syringe''), (''standard'', JStr ''EN 1''), (''images'', JList [])]
     = Inr merged \<and> map_of merged ''images'' = Some (JList [JInt 7])"
  using merge_slide_data_precedence
    [of "[(''data'', JObj [(''standard'', JStr ''ISO 7886''), (''images'', JList [JInt 7])])]"
        "[(''standard'', JStr ''ISO 7886''), (''images'', JList [JInt 7])]"
        "''images''"
        "[(''name'', JStr ''Syringe''), (''standard'', JStr ''EN 1''), (''images'', JList [])]"]
  by (simp add: fields_to_merge_def dict_get_def)

text \<open>
  Claim C9. The merge allocates a new object for its result and leaves every object
  that was in the store, the two arguments included, as it was; the new object agrees
  with the pure merge of the two arguments, and for every key outside the five
  mergeable fields it holds exactly what the Excel product holds.
\<close>

theorem merge_slide_data_frame:
  assumes "slide_payload < length st" and "excel_product < length st"
      and "map_of (st ! slide_payload) ''data'' = Some (JObj slide_data)"
  shows "\<exists>merged st'.
           merge_slide_data_st st slide_payload excel_product = Inr (merged, st') \<and>
           merged = length st \<and> length st' = Suc (length st) \<and>
           (\<forall>a < length st. st' ! a = st ! a) \<and>
           merge_slide_data (st ! slide_payload) (st ! excel_product) = Inr (st' ! merged) \<and>
           (\<forall>k. k \<notin> set fields_to_merge \<longrightarrow>
                map_of (st' ! merged) k = map_of (st ! excel_product) k)"
proof -
  let ?m = "length st"
  let ?st1 = "st @ [st ! excel_product]"
  let ?res = "merge_fields fields_to_merge slide_data (st ! excel_product) (st ! excel_product)"
  have run: "merge_slide_data_st st slide_payload excel_product =
          Inr (?m, merge_fields_st fields_to_merge slide_data excel_product ?m ?st1)"
    using assms(3) by (simp add: merge_slide_data_st_def store_alloc_def)
  have "merge_fields_st fields_to_merge slide_data excel_product ?m ?st1 =
          ?st1[?m := merge_fields fields_to_merge slide_data (?st1 ! excel_product) (?st1 ! ?m)]"
    using assms(2) by (intro merge_fields_st_eq) auto
  then have st': "merge_fields_st fields_to_merge slide_data excel_product ?m ?st1 = st @ [?res]"
    using assms(2) by (simp add: nth_append)
  have pure: "merge_slide_data (st ! slide_payload) (st ! excel_product) = Inr ?res"
    using assms(3) by (simp add: merge_slide_data_def)
  have frame: "\<forall>k. k \<notin> set fields_to_merge \<longrightarrow> map_of ?res k = map_of (st ! excel_product) k"
    by (simp add: merge_fields_other)
  show ?thesis
    using run st' pure frame by (simp add: nth_append)
qed

theorem merge_slide_data_frame_witness:
  "\<exists>st'. merge_slide_data_st
       [[(''data'', JObj [(''description'', JStr ''New'')])],
        [(''name'', JStr ''Syringe''), (''description'', JStr [])]] 0 1 = Inr (2, st') \<and>
     st' ! 0 = [(''data'', JObj [(''description'', JStr ''New'')])] \<and>
     st' ! 1 = [(''name'', JStr ''Syringe''), (''description'', JStr [])] \<and>
     map_of (st' ! 2) ''name'' = Some (JStr ''Syringe'')"
proof -
  let ?st = "[[(''data'', JObj [(''description'', JStr ''New'')])],
        [(''name'', JStr ''Syringe''), (''description'', JStr [])]]"
  have "0 < length ?st" and "1 < length ?st"
    and "map_of (?st ! 0) ''data'' = Some (JObj [(''description'', JStr ''New'')])"
    by simp_all
  from merge_slide_data_frame [OF this]
  obtain st' where run: "merge_slide_data_st ?st 0 1 = Inr (length ?st, st')"
    and old: "\<forall>a < length ?st. st' ! a = ?st ! a"
    and frame: "\<forall>k. k \<notin> set fields_to_merge \<longrightarrow>
                map_of (st' ! length ?st) k = map_of (?st ! 1) k"
    by blast
  have "st' ! 0 = ?st ! 0" and "st' ! 1 = ?st ! 1" using old by simp_all
  moreover have "map_of (st' ! 2) ''name'' = map_of (?st ! 1) ''name''"
    using frame [rule_format, of "''name''"] by (simp add: fields_to_merge_def numeral_2_eq_2)
  ultimately show ?thesis using run by simp
qed

text \<open>
  Claim C1. An Excel product that carries the placeholder packaging object (all counts
  0, notes \<^verbatim>\<open>"Not specified"\<close>) is merged with a slide payload that carries real packaging
  data. The placeholder is a non-empty object, hence truthy, so the merge keeps it and
  drops the slide's packaging; the completeness check of the same module then reports
  \<^verbatim>\<open>PackagingInformation\<close> of the merged product as missing.
\<close>

theorem merge_keeps_placeholder_packaging:
  "merge_slide_data
     [(''data'', JObj [(''PackagingInformation'',
         JObj [(''packing_per_inner_box'', JInt 100),
               (''inner_boxes_per_carton'', JInt 20),
               (''loading_capacity_20GP'', JInt 0),
               (''loading_capacity_40HC'', JInt 0),
               (''additional_notes'', JStr ''Not specified'')])])]
     [(''referenceString'', JStr ''1.1''), (''PackagingInformation'', default_packaging)]
   = Inr [(''referenceString'', JStr ''1.1''), (''PackagingInformation'', default_packaging)]
   \<and> ''PackagingInformation'' \<in> set (check_completeness
       [(''referenceString'', JStr ''1.1''), (''PackagingInformation'', default_packaging)])"
  by (simp add: merge_slide_data_def fields_to_merge_def dict_get_def default_packaging_def
      check_completeness_def field_missing_def meaningful_def)

section \<open>Python strings (ASCII)\<close>

text \<open>
  Strings are lists of ASCII characters. \<^verbatim>\<open>str.lower\<close>, \<^verbatim>\<open>str.upper\<close>, \<^verbatim>\<open>str.strip\<close> and the
  regular-expression classes \<^verbatim>\<open>\s\<close>, \<^verbatim>\<open>\w\<close> and \<^verbatim>\<open>[0-9]\<close> are the ASCII parts of Python's.
\<close>

definition ascii_upper :: string where
  "ascii_upper = ''ABCDEFGHIJKLMNOPQRSTUVWXYZ''"

definition ascii_lower :: string where
  "ascii_lower = ''abcdefghijklmnopqrstuvwxyz''"

definition digits10 :: string where
  "digits10 = ''0123456789''"

definition lower_char :: "char \<Rightarrow> char" where
  "lower_char c = (case map_of (zip ascii_upper ascii_lower) c of Some d \<Rightarrow> d | None \<Rightarrow> c)"

definition upper_char :: "char \<Rightarrow> char" where
  "upper_char c = (case map_of (zip ascii_lower ascii_upper) c of Some d \<Rightarrow> d | None \<Rightarrow> c)"

definition str_lower :: "string \<Rightarrow> string" where
  "str_lower s = map lower_char s"

definition str_upper :: "string \<Rightarrow> string" where
  "str_upper s = map upper_char s"

definition is_digit :: "char \<Rightarrow> bool" where
  "is_digit c = (c \<in> set digits10)"

text \<open>
  Whitespace for \<^verbatim>\<open>str.strip()\<close>, \<^verbatim>\<open>str.isspace\<close> and \<^verbatim>\<open>\s\<close>: tab, line feed, vertical tab,
  form feed, carriage return, the four separators \<open>0x1C\<close> to \<open>0x1F\<close>, and the space.
\<close>

definition is_space :: "char \<Rightarrow> bool" where
  "is_space c = (c \<in> set [CHR 0x09, CHR 0x0A, CHR 0x0B, CHR 0x0C, CHR 0x0D,
                            CHR 0x1C, CHR 0x1D, CHR 0x1E, CHR 0x1F, CHR 0x20])"

definition is_word :: "char \<Rightarrow> bool" where
  "is_word c = (c \<in> set ascii_lower \<or> c \<in> set ascii_upper \<or> is_digit c \<or> c = CHR ''_'')"

text \<open>\<^verbatim>\<open>s.strip(chars)\<close>, and \<^verbatim>\<open>s.strip()\<close> for whitespace.\<close>

definition strip_chars :: "(char \<Rightarrow> bool) \<Rightarrow> string \<Rightarrow> string" where
  "strip_chars P s = rev (dropWhile P (rev (dropWhile P s)))"

definition str_strip :: "string \<Rightarrow> string" where
  "str_strip s = strip_chars is_space s"

text \<open>\<^verbatim>\<open>str(n)\<close> for a natural number: its decimal digits.\<close>

definition digit_char :: "nat \<Rightarrow> char" where
  "digit_char d = digits10 ! d"

function str_nat :: "nat \<Rightarrow> string" where
  "str_nat n = (if n < 10 then [digit_char n] else str_nat (n div 10) @ [digit_char (n mod 10)])"
  by pat_completeness auto
termination
  by (relation "measure id") auto

declare str_nat.simps [simp del]

text \<open>The value of a character as a decimal digit, and of a string of digits.\<close>

definition digit_val :: "char \<Rightarrow> nat" where
  "digit_val c = (case map_of (zip digits10 [0 ..< 10]) c of Some d \<Rightarrow> d | None \<Rightarrow> 0)"

definition nat_of_digits :: "string \<Rightarrow> nat" where
  "nat_of_digits s = foldl (\<lambda>a c. 10 * a + digit_val c) 0 s"

section \<open>Slug builder (core/slug\_builder.py)\<close>

text \<open>
  \<^verbatim>\<open>slugify\<close>: lower-case, delete every character outside \<^verbatim>\<open>[\w\s-]\<close>, replace each
  maximal run of \<^verbatim>\<open>[-\s]\<close> by one hyphen, strip hyphens at both ends. Unicode
  normalisation (NFD) is the identity on ASCII names.
\<close>

definition is_sep :: "char \<Rightarrow> bool" where
  "is_sep c = (c = CHR ''-'' \<or> is_space c)"

function collapse_seps :: "string \<Rightarrow> string" where
  "collapse_seps [] = []"
| "collapse_seps (c # cs) =
     (if is_sep c then CHR ''-'' # collapse_seps (dropWhile is_sep cs)
      else c # collapse_seps cs)"
  by pat_completeness auto
termination
  by (relation "measure length") (auto simp: less_Suc_eq_le length_dropWhile_le)

definition slugify :: "string \<Rightarrow> string" where
  "slugify text =
     (if text = [] then []
      else let t1 = str_lower text;
               t2 = filter (\<lambda>c. is_word c \<or> is_space c \<or> c = CHR ''-'') t1;
               t3 = collapse_seps t2
           in strip_chars (\<lambda>c. c = CHR ''-'') t3)"

text \<open>The candidate \<^verbatim>\<open>f"{base_slug}-{counter}"\<close>.\<close>

definition numbered :: "string \<Rightarrow> nat \<Rightarrow> string" where
  "numbered base_slug counter = base_slug @ ''-'' @ str_nat counter"

lemma digit_val_digit_char: "d < 10 \<Longrightarrow> digit_val (digit_char d) = d"
proof -
  assume "d < 10"
  then have "d \<in> {0,1,2,3,4,5,6,7,8,9}" by auto
  then show ?thesis
    by (auto simp: digit_val_def digit_char_def digits10_def upt_conv_Cons)
qed

lemma nat_of_digits_str_nat: "nat_of_digits (str_nat n) = n"
proof (induction n rule: str_nat.induct)
  case (1 n)
  show ?case
  proof (cases "n < 10")
    case True
    then show ?thesis
      by (subst str_nat.simps) (simp add: nat_of_digits_def digit_val_digit_char)
  next
    case False
    have "nat_of_digits (str_nat n) = 10 * nat_of_digits (str_nat (n div 10)) + digit_val (digit_char (n mod 10))"
      using False by (subst str_nat.simps) (simp add: nat_of_digits_def)
    also have "\<dots> = 10 * (n div 10) + n mod 10"
      using 1 False by (simp add: digit_val_digit_char)
    finally show ?thesis by simp
  qed
qed

lemma inj_str_nat: "inj str_nat"
  by (rule inj_on_inverseI [where g = nat_of_digits]) (rule nat_of_digits_str_nat)

lemma inj_numbered: "inj (numbered base)"
  by (auto simp: inj_def numbered_def dest: injD [OF inj_str_nat])

lemma finite_numbered: "finite {k. numbered base k \<in> set existing}"
proof -
  have "finite (numbered base -` set existing)"
    by (rule finite_vimageI) (simp_all add: inj_numbered)
  then show ?thesis by (simp add: vimage_def)
qed

text \<open>
  The \<^verbatim>\<open>while slug in existing_slugs\<close> loop ends because the candidates are pairwise
  different and only finitely many of them are taken: \<open>pending\<close> counts the taken
  candidates from \<open>counter\<close> on.
\<close>

definition pending :: "string \<Rightarrow> string list \<Rightarrow> nat \<Rightarrow> nat" where
  "pending base existing counter = card {k. counter \<le> k \<and> numbered base k \<in> set existing}"

lemma pending_step:
  assumes "numbered base c \<in> set existing"
  shows "pending base existing (Suc c) < pending base existing c"
  unfolding pending_def
proof (rule psubset_card_mono)
  show "finite {k. c \<le> k \<and> numbered base k \<in> set existing}"
    using finite_numbered [of base existing] by (rule rev_finite_subset) auto
  have "c \<in> {k. c \<le> k \<and> numbered base k \<in> set existing}"
    and "c \<notin> {k. Suc c \<le> k \<and> numbered base k \<in> set existing}"
    using assms by simp_all
  moreover have "{k. Suc c \<le> k \<and> numbered base k \<in> set existing}
        \<subseteq> {k. c \<le> k \<and> numbered base k \<in> set existing}"
    by auto
  ultimately show "{k. Suc c \<le> k \<and> numbered base k \<in> set existing}
        \<subset> {k. c \<le> k \<and> numbered base k \<in> set existing}"
    by blast
qed

lemma pending_mono: "pending base existing (Suc c) \<le> pending base existing c"
  unfolding pending_def
proof (rule card_mono)
  show "finite {k. c \<le> k \<and> numbered base k \<in> set existing}"
    using finite_numbered [of base existing] by (rule rev_finite_subset) auto
qed auto

lemma pending_mono2: "2 * pending base existing (Suc c) < Suc (2 * pending base existing c)"
  using pending_mono [of base existing c] by simp

text \<open>
  The loop of \<^verbatim>\<open>generate_unique_slug\<close> on its state (\<open>counter\<close>, \<open>slug\<close>); the set
  \<^verbatim>\<open>existing_slugs\<close> is given by a list of its elements.
\<close>

function while_taken :: "string \<Rightarrow> string list \<Rightarrow> nat \<Rightarrow> string \<Rightarrow> string" where
  "while_taken base_slug existing_slugs counter slug =
     (if slug \<in> set existing_slugs
      then while_taken base_slug existing_slugs (counter + 1) (numbered base_slug counter)
      else slug)"
  by pat_completeness auto
termination
  by (relation "measure (\<lambda>(base, existing, counter, slug).
          2 * pending base existing counter + (if slug \<in> set existing then 1 else 0))")
     (auto simp: pending_step pending_mono2)

declare while_taken.simps [simp del]

definition generate_unique_slug :: "string \<Rightarrow> string list \<Rightarrow> string" where
  "generate_unique_slug name existing_slugs =
     (let base_slug = (if slugify name = [] then ''product'' else slugify name)
      in while_taken base_slug existing_slugs 1 base_slug)"

lemma while_taken_fresh: "while_taken base existing counter slug \<notin> set existing"
  by (induction base existing counter slug rule: while_taken.induct)
     (subst while_taken.simps, simp)

lemma generate_unique_slug_fresh: "generate_unique_slug name existing \<notin> set existing"
  by (simp add: generate_unique_slug_def Let_def while_taken_fresh)

text \<open>
  \<^verbatim>\<open>product.get('data', {}).get('name', '')\<close>: \<^verbatim>\<open>AttributeError\<close> when the product or its
  \<^verbatim>\<open>data\<close> entry is not an object.
\<close>

definition get_name :: "json \<Rightarrow> py_error + json" where
  "get_name product =
     (case product of
        JObj p \<Rightarrow>
          (case map_of p ''data'' of
             None \<Rightarrow> Inr (JStr [])
           | Some (JObj d) \<Rightarrow> Inr (case map_of d ''name'' of None \<Rightarrow> JStr [] | Some v \<Rightarrow> v)
           | Some _ \<Rightarrow> Inl AttributeError)
      | _ \<Rightarrow> Inl AttributeError)"

text \<open>
  \<^verbatim>\<open>if 'data' not in product: product['data'] = {}\<close> followed by
  \<^verbatim>\<open>product['data']['slug'] = slug\<close>.
\<close>

definition set_slug :: "json \<Rightarrow> string \<Rightarrow> py_error + json" where
  "set_slug product slug =
     (case product of
        JObj p \<Rightarrow>
          (let p1 = (if map_of p ''data'' = None then dict_set p ''data'' (JObj []) else p)
           in case map_of p1 ''data'' of
                Some (JObj d) \<Rightarrow>
                  Inr (JObj (dict_set p1 ''data'' (JObj (dict_set d ''slug'' (JStr slug)))))
              | _ \<Rightarrow> Inl TypeError)
      | _ \<Rightarrow> Inl TypeError)"

text \<open>
  The \<^verbatim>\<open>for\<close> loop of \<^verbatim>\<open>add_slugs_to_products\<close>; \<^verbatim>\<open>existing_slugs\<close> is the set of slugs
  handed out so far. A truthy name that is not a string makes \<^verbatim>\<open>unicodedata.normalize\<close>
  raise \<^verbatim>\<open>TypeError\<close>.
\<close>

fun slug_loop :: "string list \<Rightarrow> json list \<Rightarrow> py_error + json list" where
  "slug_loop existing_slugs [] = Inr []"
| "slug_loop existing_slugs (product # rest) =
     (case get_name product of
        Inl e \<Rightarrow> Inl e
      | Inr name \<Rightarrow>
          if \<not> truthy name then
            (case slug_loop existing_slugs rest of
               Inl e \<Rightarrow> Inl e
             | Inr updated \<Rightarrow> Inr (product # updated))
          else
            (case name of
               JStr s \<Rightarrow>
                 (let slug = generate_unique_slug s existing_slugs
                  in case set_slug product slug of
                       Inl e \<Rightarrow> Inl e
                     | Inr product' \<Rightarrow>
                         (case slug_loop (slug # existing_slugs) rest of
                            Inl e \<Rightarrow> Inl e
                          | Inr updated \<Rightarrow> Inr (product' # updated)))
             | _ \<Rightarrow> Inl TypeError))"

text \<open>Python slices \<^verbatim>\<open>xs[:l]\<close> and \<^verbatim>\<open>xs[l:]\<close>; a negative bound counts from the end.\<close>

definition py_take :: "int \<Rightarrow> 'a list \<Rightarrow> 'a list" where
  "py_take l xs = (if 0 \<le> l then take (nat l) xs else take (length xs - nat (- l)) xs)"

definition py_drop :: "int \<Rightarrow> 'a list \<Rightarrow> 'a list" where
  "py_drop l xs = (if 0 \<le> l then drop (nat l) xs else drop (length xs - nat (- l)) xs)"

definition products_to_process :: "json list \<Rightarrow> int option \<Rightarrow> json list" where
  "products_to_process products limit =
     (case limit of
        None \<Rightarrow> products
      | Some l \<Rightarrow> if l \<noteq> 0 then py_take l products else products)"

definition add_slugs_to_products :: "json list \<Rightarrow> int option \<Rightarrow> py_error + json list" where
  "add_slugs_to_products products limit =
     (case slug_loop [] (products_to_process products limit) of
        Inl e \<Rightarrow> Inl e
      | Inr updated_products \<Rightarrow>
          Inr (updated_products @
               (case limit of
                  None \<Rightarrow> []
                | Some l \<Rightarrow>
                    if l \<noteq> 0 \<and> l < int (length products) then py_drop l products else [])))"

text \<open>Observers: the slug a product carries, and whether the loop gives it one.\<close>

definition slug_of :: "json \<Rightarrow> json" where
  "slug_of product =
     (case product of
        JObj p \<Rightarrow> (case map_of p ''data'' of Some (JObj d) \<Rightarrow> dict_get d ''slug'' | _ \<Rightarrow> JNull)
      | _ \<Rightarrow> JNull)"

definition has_name :: "json \<Rightarrow> bool" where
  "has_name product = (case get_name product of Inr name \<Rightarrow> truthy name | Inl _ \<Rightarrow> False)"

definition assigned_slugs :: "json list \<Rightarrow> json list" where
  "assigned_slugs products = map slug_of (filter has_name products)"

lemma set_slug_result:
  assumes "get_name product = Inr name" and "truthy name"
  shows "\<exists>product'. set_slug product slug = Inr product' \<and>
           slug_of product' = JStr slug \<and> has_name product'"
proof -
  from assms obtain p d where p: "product = JObj p" and d: "map_of p ''data'' = Some (JObj d)"
    and n: "map_of d ''name'' = Some name"
    by (auto simp: get_name_def split: json.splits option.splits)
  let ?p' = "JObj (dict_set p ''data'' (JObj (dict_set d ''slug'' (JStr slug))))"
  have "set_slug product slug = Inr ?p'" using p d by (simp add: set_slug_def)
  moreover have "slug_of ?p' = JStr slug"
    by (simp add: slug_of_def map_of_dict_set dict_get_def)
  moreover have "has_name ?p'"
    using n assms(2) by (simp add: has_name_def get_name_def map_of_dict_set)
  ultimately show ?thesis by blast
qed

lemma slug_loop_distinct:
  "slug_loop existing products = Inr updated \<Longrightarrow>
   length updated = length products \<and> distinct (assigned_slugs updated) \<and>
   JStr ` set existing \<inter> set (assigned_slugs updated) = {}"
proof (induction products arbitrary: existing updated)
  case Nil
  then show ?case by (simp add: assigned_slugs_def)
next
  case (Cons product rest)
  from Cons.prems obtain name where name: "get_name product = Inr name"
    by (auto split: sum.splits)
  show ?case
  proof (cases "truthy name")
    case False
    with Cons.prems name obtain upd where upd: "slug_loop existing rest = Inr upd"
      and updated: "updated = product # upd"
      by (auto split: sum.splits)
    have "\<not> has_name product" using name False by (simp add: has_name_def)
    then show ?thesis using Cons.IH [OF upd] updated by (simp add: assigned_slugs_def)
  next
    case True
    with Cons.prems name obtain s where s: "name = JStr s"
      by (auto split: sum.splits json.splits)
    let ?slug = "generate_unique_slug s existing"
    from set_slug_result [OF name True, of ?slug]
    obtain product' where p': "set_slug product ?slug = Inr product'"
      and slug: "slug_of product' = JStr ?slug" and named: "has_name product'"
      by blast
    from Cons.prems name True s p' obtain upd
      where upd: "slug_loop (?slug # existing) rest = Inr upd"
        and updated: "updated = product' # upd"
      by (auto simp: Let_def split: sum.splits)
    from Cons.IH [OF upd] have len: "length upd = length rest"
      and dist: "distinct (assigned_slugs upd)"
      and disj: "JStr ` set (?slug # existing) \<inter> set (assigned_slugs upd) = {}"
      by simp_all
    have eq: "assigned_slugs updated = JStr ?slug # assigned_slugs upd"
      using updated slug named by (simp add: assigned_slugs_def)
    have fresh: "?slug \<notin> set existing" by (rule generate_unique_slug_fresh)
    have "JStr ?slug \<notin> set (assigned_slugs upd)" using disj by auto
    moreover have "JStr ` set existing \<inter> set (assigned_slugs updated) = {}"
      using disj fresh eq by auto
    ultimately show ?thesis using len dist eq updated by simp
  qed
qed

lemma slugify_Syringe: "slugify ''Syringe'' = ''syringe''"
  by (simp add: slugify_def str_lower_def lower_char_def ascii_upper_def ascii_lower_def
      is_word_def is_digit_def digits10_def is_space_def is_sep_def strip_chars_def)

lemma generate_Syringe_1: "generate_unique_slug ''Syringe'' [] = ''syringe''"
  by (simp add: generate_unique_slug_def slugify_Syringe while_taken.simps)

lemma generate_Syringe_2: "generate_unique_slug ''Syringe'' [''syringe''] = ''syringe-1''"
  by (simp add: generate_unique_slug_def slugify_Syringe while_taken.simps numbered_def
      str_nat.simps digit_char_def digits10_def)

text \<open>
  Claim C8. Whenever \<^verbatim>\<open>add_slugs_to_products\<close> returns, the slugs it assigned (those of the
  processed products that have a name) are pairwise distinct; and two products both
  named \<^verbatim>\<open>"Syringe"\<close> receive, in order, \<^verbatim>\<open>"syringe"\<close> and \<^verbatim>\<open>"syringe-1"\<close>.
\<close>

theorem add_slugs_unique:
  "(\<forall>products limit updated.
      add_slugs_to_products products limit = Inr updated \<longrightarrow>
        distinct (assigned_slugs (take (length (products_to_process products limit)) updated))) \<and>
   add_slugs_to_products
     [JObj [(''data'', JObj [(''name'', JStr ''Syringe'')])],
      JObj [(''data'', JObj [(''name'', JStr ''Syringe'')])]] None
   = Inr [JObj [(''data'', JObj [(''name'', JStr ''Syringe''), (''slug'', JStr ''syringe'')])],
          JObj [(''data'', JObj [(''name'', JStr ''Syringe''), (''slug'', JStr ''syringe-1'')])]]"
proof (intro conjI allI impI)
  fix products limit updated
  assume run: "add_slugs_to_products products limit = Inr updated"
  then obtain upd where upd: "slug_loop [] (products_to_process products limit) = Inr upd"
    and "take (length upd) updated = upd"
    by (auto simp: add_slugs_to_products_def split: sum.splits)
  moreover from slug_loop_distinct [OF upd]
  have "length upd = length (products_to_process products limit)"
    and "distinct (assigned_slugs upd)"
    by simp_all
  ultimately show "distinct (assigned_slugs (take (length (products_to_process products limit)) updated))"
    by simp
next
  show "add_slugs_to_products
     [JObj [(''data'', JObj [(''name'', JStr ''Syringe'')])],
      JObj [(''data'', JObj [(''name'', JStr ''Syringe'')])]] None
   = Inr [JObj [(''data'', JObj [(''name'', JStr ''Syringe''), (''slug'', JStr ''syringe'')])],
          JObj [(''data'', JObj [(''name'', JStr ''Syringe''), (''slug'', JStr ''syringe-1'')])]]"
    by (simp add: add_slugs_to_products_def products_to_process_def get_name_def set_slug_def
        generate_Syringe_1 generate_Syringe_2)
qed

theorem add_slugs_unique_witness:
  "distinct (assigned_slugs
     [JObj [(''data'', JObj [(''name'', JStr ''Syringe''), (''slug'', JStr ''syringe'')])],
      JObj [(''data'', JObj [(''name'', JStr ''Syringe''), (''slug'', JStr ''syringe-1'')])]])
   \<and> assigned_slugs
     [JObj [(''data'', JObj [(''name'', JStr ''Syringe''), (''slug'', JStr ''syringe'')])],
      JObj [(''data'', JObj [(''name'', JStr ''Syringe''), (''slug'', JStr ''syringe-1'')])]]
     = [JStr ''syringe'', JStr ''syringe-1'']"
proof -
  let ?ps = "[JObj [(''data'', JObj [(''name'', JStr ''Syringe'')])],
      JObj [(''data'', JObj [(''name'', JStr ''Syringe'')])]]"
  let ?out = "[JObj [(''data'', JObj [(''name'', JStr ''Syringe''), (''slug'', JStr ''syringe'')])],
      JObj [(''data'', JObj [(''name'', JStr ''Syringe''), (''slug'', JStr ''syringe-1'')])]]"
  have run: "add_slugs_to_products ?ps None = Inr ?out"
    using add_slugs_unique by blast
  have "distinct (assigned_slugs (take (length (products_to_process ?ps None)) ?out))"
    using add_slugs_unique run by blast
  then have "distinct (assigned_slugs ?out)"
    by (simp add: products_to_process_def)
  moreover have "assigned_slugs ?out = [JStr ''syringe'', JStr ''syringe-1'']"
    by (simp add: assigned_slugs_def has_name_def get_name_def slug_of_def dict_get_def)
  ultimately show ?thesis by simp
qed

section \<open>Numbers and cells\<close>

text \<open>\<^verbatim>\<open>str(n)\<close> for an integer.\<close>

definition str_int :: "int \<Rightarrow> string" where
  "str_int n = (if n < 0 then CHR ''-'' # str_nat (nat (- n)) else str_nat (nat n))"

text \<open>
  The digit part of Python's numeric literals in strings: digits, with single
  underscores allowed between two digits.
\<close>

fun digitpart :: "string \<Rightarrow> bool" where
  "digitpart [] = False"
| "digitpart [c] = is_digit c"
| "digitpart (c # d # cs) =
     (is_digit c \<and> (if d = CHR ''_'' then digitpart cs else digitpart (d # cs)))"

definition digits_value :: "string \<Rightarrow> int" where
  "digits_value s = foldl (\<lambda>a c. 10 * a + int (digit_val c)) 0 (filter is_digit s)"

text \<open>
  \<^verbatim>\<open>int(s)\<close> for a string: surrounding whitespace is ignored, then an optional sign and
  a digit part; anything else raises \<^verbatim>\<open>ValueError\<close>.
\<close>

definition split_sign :: "string \<Rightarrow> int \<times> string" where
  "split_sign s =
     (case s of
        c # r \<Rightarrow> if c = CHR ''-'' then (- 1, r) else if c = CHR ''+'' then (1, r) else (1, s)
      | [] \<Rightarrow> (1, s))"

definition py_int :: "string \<Rightarrow> py_error + int" where
  "py_int s =
     (let (sign, body) = split_sign (str_strip s)
      in if digitpart body then Inr (sign * digits_value body) else Inl ValueError)"

text \<open>
  A spreadsheet cell as pandas hands it over: \<^verbatim>\<open>NaN\<close> for a blank cell, a string, or an
  integer.
\<close>

datatype cell = CNaN | CStr string | CInt int

definition isna :: "cell \<Rightarrow> bool" where
  "isna x = (x = CNaN)"

text \<open>Truthiness: \<^verbatim>\<open>NaN\<close> is a non-zero float, hence truthy.\<close>

fun cell_truthy :: "cell \<Rightarrow> bool" where
  "cell_truthy CNaN = True"
| "cell_truthy (CStr s) = (s \<noteq> [])"
| "cell_truthy (CInt n) = (n \<noteq> 0)"

fun cell_str :: "cell \<Rightarrow> string" where
  "cell_str CNaN = ''nan''"
| "cell_str (CStr s) = s"
| "cell_str (CInt n) = str_int n"

text \<open>\<^verbatim>\<open>int(x)\<close> for a cell: \<^verbatim>\<open>int(float('nan'))\<close> raises \<^verbatim>\<open>ValueError\<close>.\<close>

fun cell_int :: "cell \<Rightarrow> py_error + int" where
  "cell_int CNaN = Inl ValueError"
| "cell_int (CStr s) = py_int s"
| "cell_int (CInt n) = Inr n"

text \<open>\<^verbatim>\<open>s.split(sep)\<close> for a one-character separator.\<close>

fun split_on :: "char \<Rightarrow> string \<Rightarrow> string list" where
  "split_on sep [] = [[]]"
| "split_on sep (c # cs) =
     (if c = sep then [] # split_on sep cs
      else (case split_on sep cs of
              w # ws \<Rightarrow> (c # w) # ws
            | [] \<Rightarrow> [[c]]))"

text \<open>A list of results is a result: the first error, or all the values.\<close>

fun all_ok :: "(py_error + 'a) list \<Rightarrow> py_error + 'a list" where
  "all_ok [] = Inr []"
| "all_ok (Inl e # rs) = Inl e"
| "all_ok (Inr v # rs) = (case all_ok rs of Inl e \<Rightarrow> Inl e | Inr vs \<Rightarrow> Inr (v # vs))"

text \<open>
  \<^verbatim>\<open>Series.ffill()\<close>: a blank cell takes the nearest non-blank value above it; blank
  cells above the first value stay blank.
\<close>

fun ffill_from :: "cell \<Rightarrow> cell list \<Rightarrow> cell list" where
  "ffill_from prev [] = []"
| "ffill_from prev (x # xs) =
     (if isna x then prev # ffill_from prev xs else x # ffill_from x xs)"

definition ffill :: "cell list \<Rightarrow> cell list" where
  "ffill xs = ffill_from CNaN xs"

section \<open>Spreadsheet converter (core/excel\_to\_json.py)\<close>

type_synonym str_map = "(string \<times> string) list"

definition parse_divisions :: "cell \<Rightarrow> int list" where
  "parse_divisions divisions_str =
     (if isna divisions_str \<or> \<not> cell_truthy divisions_str then []
      else (case all_ok (map (\<lambda>x. py_int (str_strip x))
                          (filter (\<lambda>x. str_strip x \<noteq> [])
                                  (split_on (CHR '','') (cell_str divisions_str)))) of
              Inl e \<Rightarrow> []
            | Inr ids \<Rightarrow> ids))"

fun get_division_names :: "int list \<Rightarrow> str_map \<Rightarrow> string list \<times> int list" where
  "get_division_names [] divisions_map = ([], [])"
| "get_division_names (div_id # rest) divisions_map =
     (let (names, missing_ids) = get_division_names rest divisions_map
      in case map_of divisions_map (str_int div_id) of
           Some name \<Rightarrow> (name # names, missing_ids)
         | None \<Rightarrow> (names, div_id # missing_ids))"

record validation_info =
  has_category :: bool
  has_divisions :: bool
  missing_category_id :: "cell option"
  missing_division_ids :: "int list"

text \<open>
  The cells of a row that \<^verbatim>\<open>process_row\<close> reads with \<^verbatim>\<open>row.get(col, '')\<close>; a column that
  the sheet does not have reads as the empty string.
\<close>

record xl_row =
  row_name :: cell
  row_referenceString :: cell
  row_standard :: cell
  row_description :: cell
  row_tableInMd :: cell
  row_category :: cell
  row_divisions :: cell

record xl_product =
  name :: string
  referenceString :: string
  standard :: string
  description :: string
  tableInMd :: string
  category :: "int option"
  categoryName :: string
  divisions :: "int list"
  divisionNames :: "string list"
  images :: "json list"
  PackagingInformation :: json

text \<open>
  \<^verbatim>\<open>process_row\<close>. The only statement of the \<^verbatim>\<open>try\<close> block that can raise is
  \<^verbatim>\<open>int(category_id)\<close>; the handler returns \<^verbatim>\<open>None\<close> with the validation info as it then
  stands.
\<close>

definition process_row :: "xl_row \<Rightarrow> str_map \<Rightarrow> str_map \<Rightarrow> xl_product option \<times> validation_info" where
  "process_row row categories_map divisions_map =
     (let division_ids = parse_divisions (row_divisions row);
          (division_names, missing) = get_division_names division_ids divisions_map;
          info0 = \<lparr>has_category = False, has_divisions = (0 < length division_ids),
                   missing_category_id = None, missing_division_ids = missing\<rparr>;
          category_id = row_category row;
          known = map_of categories_map (cell_str category_id);
          category_found = (cell_truthy category_id \<and> known \<noteq> None);
          category_name = (if category_found then (case known of Some n \<Rightarrow> n | None \<Rightarrow> []) else []);
          info = (if cell_truthy category_id
                  then (if known \<noteq> None then info0\<lparr>has_category := True\<rparr>
                        else info0\<lparr>missing_category_id := Some category_id\<rparr>)
                  else info0)
      in if \<not> category_found \<or> missing \<noteq> [] then (None, info)
         else (case cell_int category_id of
                 Inl e \<Rightarrow> (None, info)
               | Inr c \<Rightarrow>
                   (Some \<lparr>name = cell_str (row_name row),
                          referenceString = cell_str (row_referenceString row),
                          standard = cell_str (row_standard row),
                          description = cell_str (row_description row),
                          tableInMd = cell_str (row_tableInMd row),
                          category = Some c,
                          categoryName = category_name,
                          divisions = division_ids,
                          divisionNames = division_names,
                          images = [],
                          PackagingInformation = default_packaging\<rparr>, info)))"

text \<open>
  The row loop of \<^verbatim>\<open>main\<close>, after the forward-fill of the \<^verbatim>\<open>category\<close> and \<^verbatim>\<open>divisions\<close>
  columns: the products that are written to the output file.
\<close>

definition ffill_rows :: "xl_row list \<Rightarrow> xl_row list" where
  "ffill_rows rows =
     map (\<lambda>(r, c, d). r\<lparr>row_category := c, row_divisions := d\<rparr>)
       (zip rows (zip (ffill (map row_category rows)) (ffill (map row_divisions rows))))"

definition emitted_products :: "xl_row list \<Rightarrow> str_map \<Rightarrow> str_map \<Rightarrow> xl_product list" where
  "emitted_products rows categories_map divisions_map =
     List.map_filter (\<lambda>row. fst (process_row row categories_map divisions_map)) (ffill_rows rows)"

lemma get_division_names_complete:
  "get_division_names ids m = (names, []) \<Longrightarrow>
   map (\<lambda>d. map_of m (str_int d)) ids = map Some names"
proof (induction ids arbitrary: names)
  case Nil
  then show ?case by simp
next
  case (Cons d ids)
  obtain ns ms where rest: "get_division_names ids m = (ns, ms)" by (cases "get_division_names ids m")
  with Cons.prems obtain n where "map_of m (str_int d) = Some n" and "names = n # ns" and "ms = []"
    by (auto split: option.splits)
  then show ?case using Cons.IH rest by simp
qed

lemma get_division_names_missing:
  "snd (get_division_names ids m) = filter (\<lambda>d. map_of m (str_int d) = None) ids"
  by (induction ids) (auto split: prod.splits option.splits)

lemma process_row_Some:
  assumes "process_row row cats divs = (Some p, info)"
  shows "cell_truthy (row_category row) \<and>
         map_of cats (cell_str (row_category row)) = Some (categoryName p) \<and>
         (\<exists>c. category p = Some c \<and> cell_int (row_category row) = Inr c) \<and>
         divisions p = parse_divisions (row_divisions row) \<and>
         map (\<lambda>d. map_of divs (str_int d)) (divisions p) = map Some (divisionNames p) \<and>
         has_category info \<and> missing_category_id info = None \<and> missing_division_ids info = []"
proof -
  obtain ns ms where g: "get_division_names (parse_divisions (row_divisions row)) divs = (ns, ms)"
    by (cases "get_division_names (parse_divisions (row_divisions row)) divs")
  from assms g have ms: "ms = []"
    by (auto simp: process_row_def Let_def split: if_splits sum.splits)
  from assms g ms obtain c n where t: "cell_truthy (row_category row)"
    and n: "map_of cats (cell_str (row_category row)) = Some n"
    and c: "cell_int (row_category row) = Inr c"
    by (auto simp: process_row_def Let_def split: if_splits sum.splits)
  from assms g ms t n c have p: "p = \<lparr>name = cell_str (row_name row),
                          referenceString = cell_str (row_referenceString row),
                          standard = cell_str (row_standard row),
                          description = cell_str (row_description row),
                          tableInMd = cell_str (row_tableInMd row),
                          category = Some c,
                          categoryName = n,
                          divisions = parse_divisions (row_divisions row),
                          divisionNames = ns,
                          images = [],
                          PackagingInformation = default_packaging\<rparr>"
    and i: "has_category info" "missing_category_id info = None" "missing_division_ids info = []"
    by (auto simp: process_row_def Let_def)
  show ?thesis
    using p i t n c get_division_names_complete [OF g [unfolded ms]] by simp
qed

lemma process_row_None:
  assumes "\<not> cell_truthy (row_category row) \<or>
           map_of cats (cell_str (row_category row)) = None \<or>
           (\<exists>d \<in> set (parse_divisions (row_divisions row)). map_of divs (str_int d) = None) \<or>
           (\<exists>e. cell_int (row_category row) = Inl e)"
  shows "fst (process_row row cats divs) = None"
proof -
  obtain ns ms where g: "get_division_names (parse_divisions (row_divisions row)) divs = (ns, ms)"
    by (cases "get_division_names (parse_divisions (row_divisions row)) divs")
  have "ms = filter (\<lambda>d. map_of divs (str_int d) = None) (parse_divisions (row_divisions row))"
    using get_division_names_missing [of "parse_divisions (row_divisions row)" divs] g by simp
  then have "(\<exists>d \<in> set (parse_divisions (row_divisions row)). map_of divs (str_int d) = None)
      \<Longrightarrow> ms \<noteq> []"
    by (auto simp: filter_empty_conv)
  then show ?thesis
    using assms g by (auto simp: process_row_def Let_def split: sum.splits)
qed

text \<open>
  Claim C10. \<^verbatim>\<open>process_row\<close> returns a product only for a row whose category id is a key
  of the categories map and whose parsed division ids are all keys of the divisions
  map; the product then carries that category id (never \<^verbatim>\<open>None\<close>), the mapped category
  name, and one division name for every division id, in order. When the category is
  blank or unknown, a division id is unknown, or \<^verbatim>\<open>int(category_id)\<close> raises, the result is
  \<^verbatim>\<open>None\<close> with the validation info. Hence every product the script writes has a resolved
  category and a \<^verbatim>\<open>divisionNames\<close> list covering its \<^verbatim>\<open>divisions\<close>.
\<close>

theorem process_row_resolved:
  "(process_row row cats divs = (Some p, info) \<longrightarrow>
      cell_truthy (row_category row) \<and>
      map_of cats (cell_str (row_category row)) = Some (categoryName p) \<and>
      (\<exists>c. category p = Some c \<and> cell_int (row_category row) = Inr c) \<and>
      divisions p = parse_divisions (row_divisions row) \<and>
      map (\<lambda>d. map_of divs (str_int d)) (divisions p) = map Some (divisionNames p) \<and>
      missing_category_id info = None \<and> missing_division_ids info = []) \<and>
   (\<not> cell_truthy (row_category row) \<or>
    map_of cats (cell_str (row_category row)) = None \<or>
    (\<exists>d \<in> set (parse_divisions (row_divisions row)). map_of divs (str_int d) = None) \<or>
    (\<exists>e. cell_int (row_category row) = Inl e)
      \<longrightarrow> fst (process_row row cats divs) = None) \<and>
   (\<forall>q \<in> set (emitted_products rows cats divs).
      category q \<noteq> None \<and>
      map (\<lambda>d. map_of divs (str_int d)) (divisions q) = map Some (divisionNames q))"
proof -
  have some: "process_row row cats divs = (Some p, info) \<longrightarrow>
      cell_truthy (row_category row) \<and>
      map_of cats (cell_str (row_category row)) = Some (categoryName p) \<and>
      (\<exists>c. category p = Some c \<and> cell_int (row_category row) = Inr c) \<and>
      divisions p = parse_divisions (row_divisions row) \<and>
      map (\<lambda>d. map_of divs (str_int d)) (divisions p) = map Some (divisionNames p) \<and>
      missing_category_id info = None \<and> missing_division_ids info = []"
    using process_row_Some [of row cats divs p info] by blast
  have none: "\<not> cell_truthy (row_category row) \<or>
    map_of cats (cell_str (row_category row)) = None \<or>
    (\<exists>d \<in> set (parse_divisions (row_divisions row)). map_of divs (str_int d) = None) \<or>
    (\<exists>e. cell_int (row_category row) = Inl e)
      \<longrightarrow> fst (process_row row cats divs) = None"
    using process_row_None [of row cats divs] by blast
  have emitted: "\<forall>q \<in> set (emitted_products rows cats divs).
      category q \<noteq> None \<and>
      map (\<lambda>d. map_of divs (str_int d)) (divisions q) = map Some (divisionNames q)"
  proof
    fix q assume "q \<in> set (emitted_products rows cats divs)"
    then obtain r where "fst (process_row r cats divs) = Some q"
      by (auto simp: emitted_products_def List.map_filter_def)
    then obtain i where q: "process_row r cats divs = (Some q, i)"
      by (cases "process_row r cats divs") simp
    from process_row_Some [OF q]
    show "category q \<noteq> None \<and>
      map (\<lambda>d. map_of divs (str_int d)) (divisions q) = map Some (divisionNames q)"
      by auto
  qed
  from some none emitted show ?thesis by blast
qed

definition demo_row :: xl_row where
  "demo_row = \<lparr>row_name = CStr ''Syringe 2ml'', row_referenceString = CStr ''1.1'',
     row_standard = CStr [], row_description = CStr [], row_tableInMd = CStr [],
     row_category = CInt 59, row_divisions = CStr ''48, 49''\<rparr>"

lemma demo_row_product:
  "process_row demo_row [(''59'', ''SYRINGES'')] [(''48'', ''INJECTION''), (''49'', ''DIABETES CARE'')]
   = (Some \<lparr>name = ''Syringe 2ml'', referenceString = ''1.1'', standard = [], description = [],
            tableInMd = [], category = Some 59, categoryName = ''SYRINGES'',
            divisions = [48, 49], divisionNames = [''INJECTION'', ''DIABETES CARE''],
            images = [], PackagingInformation = default_packaging\<rparr>,
      \<lparr>has_category = True, has_divisions = True, missing_category_id = None,
       missing_division_ids = []\<rparr>)"
  by code_simp

theorem process_row_resolved_witness:
  "map_of [(''59'', ''SYRINGES'')] (cell_str (row_category demo_row)) = Some ''SYRINGES'' \<and>
   cell_int (row_category demo_row) = Inr 59 \<and>
   map (\<lambda>d. map_of [(''48'', ''INJECTION''), (''49'', ''DIABETES CARE'')] (str_int d)) [48, 49]
     = [Some ''INJECTION'', Some ''DIABETES CARE''] \<and>
   fst (process_row (demo_row\<lparr>row_category := CInt 7\<rparr>) [(''59'', ''SYRINGES'')]
          [(''48'', ''INJECTION''), (''49'', ''DIABETES CARE'')]) = None"
proof -
  let ?cats = "[(''59'', ''SYRINGES'')]"
  let ?divs = "[(''48'', ''INJECTION''), (''49'', ''DIABETES CARE'')]"
  let ?p = "\<lparr>name = ''Syringe 2ml'', referenceString = ''1.1'', standard = [], description = [],
            tableInMd = [], category = Some 59, categoryName = ''SYRINGES'',
            divisions = [48, 49], divisionNames = [''INJECTION'', ''DIABETES CARE''],
            images = [], PackagingInformation = default_packaging\<rparr>"
  let ?i = "\<lparr>has_category = True, has_divisions = True, missing_category_id = None,
       missing_division_ids = []\<rparr>"
  have run: "process_row demo_row ?cats ?divs = (Some ?p, ?i)" by (rule demo_row_product)
  from process_row_resolved [of demo_row ?cats ?divs ?p ?i "[]"] run
  have "map_of ?cats (cell_str (row_category demo_row)) = Some (categoryName ?p) \<and>
     (\<exists>c. category ?p = Some c \<and> cell_int (row_category demo_row) = Inr c) \<and>
     map (\<lambda>d. map_of ?divs (str_int d)) (divisions ?p) = map Some (divisionNames ?p)"
    by blast
  then have first: "map_of ?cats (cell_str (row_category demo_row)) = Some ''SYRINGES'' \<and>
     cell_int (row_category demo_row) = Inr 59 \<and>
     map (\<lambda>d. map_of ?divs (str_int d)) [48, 49] = [Some ''INJECTION'', Some ''DIABETES CARE'']"
    by simp
  have unknown: "map_of ?cats (cell_str (row_category (demo_row\<lparr>row_category := CInt 7\<rparr>))) = None"
    by code_simp
  have "fst (process_row (demo_row\<lparr>row_category := CInt 7\<rparr>) ?cats ?divs) = None"
    using process_row_resolved [of "demo_row\<lparr>row_category := CInt 7\<rparr>" ?cats ?divs ?p ?i "[]"] unknown
    by blast
  with first show ?thesis by blast
qed

section \<open>Category lookup (core/excel\_to\_json\_custom.py)\<close>

text \<open>The hardcoded fallback table of \<^verbatim>\<open>map_category_to_id\<close>.\<close>

definition category_mapping :: "(string \<times> int) list" where
  "category_mapping =
     [(''SYRINGES'', 59),
      (''NEEDLES'', 60),
      (''SCALP VEIN SETS'', 61),
      (''BLOOD LANCETS'', 62),
      (''INFUSION SETS'', 63),
      (''INFUSION ACCESORIES'', 64),
      (''TRANSFUSION SETS'', 65),
      (''EXTENSION TUBES'', 66),
      (''IV CANNULAS'', 67),
      (''GLOVES'', 68),
      (''CONDOMS'', 69),
      (''ADHESIVE TAPES & DRESSINGS'', 70),
      (''GAUZE'', 71),
      (''DISPOSABLE NON-WOVEN GOURMENTS'', 72),
      (''URINARY CATHETERS'', 73),
      (''HEMODIALYSIS CATHETERS'', 74),
      (''SUCTION CATHETER'', 75),
      (''ENTERAL FEEDING TUBES'', 76),
      (''BLOOD EXTRACTION'', 77),
      (''CENTRAL VENOUS CATHETERS (CVC)'', 78),
      (''ELECTRODES'', 79),
      (''ENDOBRONCHEAL TUBES'', 80),
      (''ENDOTRACHEAL TUBES'', 81),
      (''LARYNGEAL MASKS'', 82),
      (''NASA OXYGEN CANNULA'', 83),
      (''NASOPHARINGEAL AIRWAYS'', 84),
      (''PHARINGEAL AIRWAYS'', 85),
      (''PRESSURE TRANSDUCERS'', 86),
      (''RESPIRATORY CIRCUITS'', 87),
      (''RESPIRATORY MASKS'', 88),
      (''STOMACH TUBES'', 89),
      (''SUCTION TUBE + JANKAUER HANDLE'', 90),
      (''TRACHEOSTOMY'', 91),
      (''URINE BAGS'', 92),
      (''DISPOSABLE NON-WOVEN OPERATION ROOMS'', 93)]"

text \<open>
  The loop over \<^verbatim>\<open>categories_map.items()\<close>: the id of the first entry whose name equals
  the wanted name up to case.
\<close>

fun first_by_name :: "string \<Rightarrow> str_map \<Rightarrow> string option" where
  "first_by_name category_name [] = None"
| "first_by_name category_name ((cat_id, cat_name) # rest) =
     (if str_upper cat_name = str_upper category_name then Some cat_id
      else first_by_name category_name rest)"

text \<open>
  \<^verbatim>\<open>map_category_to_id\<close> returns the pair (id, found). \<^verbatim>\<open>int(cat_id)\<close> raises \<^verbatim>\<open>ValueError\<close>
  for a key of the fetched table that is not a number.
\<close>

definition map_category_to_id :: "string \<Rightarrow> str_map \<Rightarrow> py_error + (int \<times> bool)" where
  "map_category_to_id category_name categories_map =
     (case first_by_name category_name categories_map of
        Some cat_id \<Rightarrow>
          (case py_int cat_id of Inl e \<Rightarrow> Inl e | Inr i \<Rightarrow> Inr (i, True))
      | None \<Rightarrow>
          Inr (case map_of category_mapping (str_upper category_name) of
                 Some i \<Rightarrow> i
               | None \<Rightarrow> 59, False))"

lemma first_by_name_None:
  "first_by_name wanted cats = None \<longleftrightarrow> (\<forall>(k, n) \<in> set cats. str_upper n \<noteq> str_upper wanted)"
  by (induction cats) (auto split: if_splits)

lemma first_by_name_Some:
  "(\<forall>(k', n') \<in> set pre. str_upper n' \<noteq> str_upper wanted) \<Longrightarrow> str_upper n = str_upper wanted \<Longrightarrow>
   first_by_name wanted (pre @ (k, n) # post) = Some k"
  by (induction pre) auto

text \<open>
  Claim C3 as stated fails: a name that is in neither table is answered with the id 59,
  which is the id of \<^verbatim>\<open>SYRINGES\<close>, not with an outcome that carries no id.
\<close>

theorem map_category_to_id_default_counterexample:
  "map_category_to_id ''Stethoscopes'' [(''101'', ''Gloves'')] = Inr (59, False) \<and>
   map_category_to_id ''Syringes'' [(''101'', ''Gloves'')] = Inr (59, False)"
  by code_simp

text \<open>
  Claim C3, amended. A case-insensitive match in the fetched table wins: the first
  matching entry gives the id, with found = True, whatever the fallback table holds.
  Without such a match the id comes from the hardcoded table (looked up by the
  upper-cased name), and is the default 59 when that table has no entry either; found
  is False in both cases. The result always holds exactly one id.
\<close>

theorem map_category_to_id_order:
  "((\<forall>(k', n') \<in> set pre. str_upper n' \<noteq> str_upper category_name) \<and>
    str_upper n = str_upper category_name \<and> py_int k = Inr i \<longrightarrow>
      map_category_to_id category_name (pre @ (k, n) # post) = Inr (i, True)) \<and>
   ((\<forall>(k', n') \<in> set cats. str_upper n' \<noteq> str_upper category_name) \<and>
    map_of category_mapping (str_upper category_name) = Some j \<longrightarrow>
      map_category_to_id category_name cats = Inr (j, False)) \<and>
   ((\<forall>(k', n') \<in> set cats. str_upper n' \<noteq> str_upper category_name) \<and>
    map_of category_mapping (str_upper category_name) = None \<longrightarrow>
      map_category_to_id category_name cats = Inr (59, False))"
proof -
  have fetched: "(\<forall>(k', n') \<in> set pre. str_upper n' \<noteq> str_upper category_name) \<and>
    str_upper n = str_upper category_name \<and> py_int k = Inr i \<longrightarrow>
      map_category_to_id category_name (pre @ (k, n) # post) = Inr (i, True)"
    by (simp add: map_category_to_id_def first_by_name_Some)
  have none: "(\<forall>(k', n') \<in> set cats. str_upper n' \<noteq> str_upper category_name)
      \<Longrightarrow> first_by_name category_name cats = None"
    by (simp add: first_by_name_None)
  from fetched none show ?thesis
    by (auto simp: map_category_to_id_def)
qed

theorem map_category_to_id_order_witness:
  "map_category_to_id ''gloves'' [(''7'', ''Needles''), (''101'', ''Gloves''), (''102'', ''GLOVES'')]
     = Inr (101, True) \<and>
   map_category_to_id ''Gloves'' [(''7'', ''Needles'')] = Inr (68, False) \<and>
   map_category_to_id ''Stethoscopes'' [(''7'', ''Needles'')] = Inr (59, False)"
proof -
  have up: "str_upper ''Needles'' \<noteq> str_upper ''gloves''" "str_upper ''Gloves'' = str_upper ''gloves''"
    "str_upper ''Needles'' \<noteq> str_upper ''Gloves''" "str_upper ''Needles'' \<noteq> str_upper ''Stethoscopes''"
    by code_simp+
  have i: "py_int ''101'' = Inr 101" by code_simp
  have m: "map_of category_mapping (str_upper ''Gloves'') = Some 68"
    "map_of category_mapping (str_upper ''Stethoscopes'') = None"
    by code_simp+
  have "map_category_to_id ''gloves'' ([(''7'', ''Needles'')] @ (''101'', ''Gloves'') # [(''102'', ''GLOVES'')])
     = Inr (101, True)"
    using map_category_to_id_order [of "[(''7'', ''Needles'')]" "''gloves''" "''Gloves''" "''101''" 101
        "[(''102'', ''GLOVES'')]" "[]" 0] up i
    by simp
  moreover have "map_category_to_id ''Gloves'' [(''7'', ''Needles'')] = Inr (68, False)"
    using map_category_to_id_order [of "[]" "''Gloves''" "[]" "[]" 0 "[]" "[(''7'', ''Needles'')]" 68] up m
    by simp
  moreover have "map_category_to_id ''Stethoscopes'' [(''7'', ''Needles'')] = Inr (59, False)"
    using map_category_to_id_order [of "[]" "''Stethoscopes''" "[]" "[]" 0 "[]" "[(''7'', ''Needles'')]" 0] up m
    by simp
  ultimately show ?thesis by simp
qed

section \<open>Upload client (utils/strapi.py, uploaders/batch\_upload\_products.py)\<close>

text \<open>
  The network is the environment: the \<open>n\<close>-th request that is sent either raises a
  \<^verbatim>\<open>requests.exceptions.RequestException\<close> (a transport failure) or returns a response.
  The state is the list of requests sent so far. A request records the \<^verbatim>\<open>timeout\<close>
  argument it is sent with (\<open>None\<close>: no timeout). A response body that is not JSON is
  \<open>None\<close>.
\<close>

datatype http_method = GET | POST | PUT | DELETE

datatype endpoint = Collection | Item json

record request =
  req_method :: http_method
  req_url :: endpoint
  req_timeout :: "nat option"
  req_params :: "(string \<times> string) list"
  req_json :: "json option"

record response =
  status_code :: nat
  body :: "json option"

datatype outcome = Raises | Returns response

type_synonym network = "nat \<Rightarrow> outcome"

definition TIMEOUT :: nat where
  "TIMEOUT = 5"

definition MAX_RETRIES :: nat where
  "MAX_RETRIES = 3"

text \<open>
  The \<^verbatim>\<open>for attempt in range(MAX_RETRIES)\<close> loop of \<^verbatim>\<open>_make_request\<close>: a response of any
  status is returned at once, a \<^verbatim>\<open>RequestException\<close> starts the next attempt, and after
  the last attempt the result is \<^verbatim>\<open>None\<close>.
\<close>

fun request_loop :: "nat \<Rightarrow> network \<Rightarrow> request \<Rightarrow> request list \<Rightarrow> response option \<times> request list" where
  "request_loop 0 net req sent = (None, sent)"
| "request_loop (Suc n) net req sent =
     (case net (length sent) of
        Returns r \<Rightarrow> (Some r, sent @ [req])
      | Raises \<Rightarrow> request_loop n net req (sent @ [req]))"

text \<open>
  \<^verbatim>\<open>_make_request\<close>. No caller in the module passes \<^verbatim>\<open>timeout\<close>, so
  \<^verbatim>\<open>kwargs.setdefault("timeout", TIMEOUT)\<close> always sets it.
\<close>

definition make_request ::
  "network \<Rightarrow> http_method \<Rightarrow> endpoint \<Rightarrow> (string \<times> string) list \<Rightarrow> json option \<Rightarrow> request list
     \<Rightarrow> response option \<times> request list" where
  "make_request net m url params js sent =
     request_loop MAX_RETRIES net
       \<lparr>req_method = m, req_url = url, req_timeout = Some TIMEOUT,
        req_params = params, req_json = js\<rparr> sent"

text \<open>\<^verbatim>\<open>bool(response)\<close> is \<^verbatim>\<open>response.ok\<close>: the status is below 400.\<close>

definition response_truthy :: "response option \<Rightarrow> bool" where
  "response_truthy resp = (case resp of None \<Rightarrow> False | Some r \<Rightarrow> status_code r < 400)"

text \<open>\<^verbatim>\<open>response.json()\<close> and the subscripts \<^verbatim>\<open>result["data"]\<close>, \<^verbatim>\<open>result["data"]["id"]\<close>.\<close>

definition response_json :: "response \<Rightarrow> py_error + json" where
  "response_json r = (case body r of None \<Rightarrow> Inl ValueError | Some j \<Rightarrow> Inr j)"

definition subscript :: "json \<Rightarrow> string \<Rightarrow> py_error + json" where
  "subscript v k =
     (case v of
        JObj d \<Rightarrow> (case map_of d k of None \<Rightarrow> Inl KeyError | Some x \<Rightarrow> Inr x)
      | _ \<Rightarrow> Inl TypeError)"

text \<open>\<^verbatim>\<open>payload.get("data", {}).get("name", "Unknown")\<close>, for the success message.\<close>

definition payload_name :: "dict \<Rightarrow> py_error + json" where
  "payload_name payload =
     (case map_of payload ''data'' of
        None \<Rightarrow> Inr (JStr ''Unknown'')
      | Some (JObj d) \<Rightarrow> Inr (case map_of d ''name'' of None \<Rightarrow> JStr ''Unknown'' | Some v \<Rightarrow> v)
      | Some _ \<Rightarrow> Inl AttributeError)"

definition update_success :: "dict \<Rightarrow> response \<Rightarrow> py_error + json option" where
  "update_success payload r =
     (case response_json r of
        Inl e \<Rightarrow> Inl e
      | Inr result \<Rightarrow>
          (case payload_name payload of
             Inl e \<Rightarrow> Inl e
           | Inr product_name \<Rightarrow>
               (case subscript result ''data'' of Inl e \<Rightarrow> Inl e | Inr d \<Rightarrow> Inr (Some d))))"

definition create_success :: "dict \<Rightarrow> response \<Rightarrow> py_error + json option" where
  "create_success payload r =
     (case response_json r of
        Inl e \<Rightarrow> Inl e
      | Inr result \<Rightarrow>
          (case payload_name payload of
             Inl e \<Rightarrow> Inl e
           | Inr product_name \<Rightarrow>
               (case subscript result ''data'' of
                  Inl e \<Rightarrow> Inl e
                | Inr d \<Rightarrow>
                    (case subscript d ''id'' of Inl e \<Rightarrow> Inl e | Inr product_id \<Rightarrow> Inr (Some d)))))"

text \<open>\<^verbatim>\<open>if existing:\<close> holds for a dictionary that is not empty.\<close>

definition existing_truthy :: "dict option \<Rightarrow> bool" where
  "existing_truthy existing = (case existing of None \<Rightarrow> False | Some d \<Rightarrow> d \<noteq> [])"

definition upsert_product ::
  "network \<Rightarrow> dict \<Rightarrow> dict option \<Rightarrow> request list \<Rightarrow> (py_error + json option) \<times> request list" where
  "upsert_product net payload existing sent =
     (if existing_truthy existing then
        (case map_of (case existing of Some d \<Rightarrow> d | None \<Rightarrow> []) ''id'' of
           None \<Rightarrow> (Inl KeyError, sent)
         | Some product_id \<Rightarrow>
             (let (resp, sent') = make_request net PUT (Item product_id) [] (Some (JObj payload)) sent
              in case resp of
                   Some r \<Rightarrow>
                     if response_truthy resp \<and> status_code r \<in> {200, 201}
                     then (update_success payload r, sent')
                     else (Inr None, sent')
                 | None \<Rightarrow> (Inr None, sent')))
      else
        (let (resp, sent') = make_request net POST Collection [] (Some (JObj payload)) sent
         in case resp of
              Some r \<Rightarrow>
                if response_truthy resp \<and> status_code r \<in> {200, 201}
                then (create_success payload r, sent')
                else (Inr None, sent')
            | None \<Rightarrow> (Inr None, sent')))"

definition delete_product :: "network \<Rightarrow> int \<Rightarrow> request list \<Rightarrow> bool \<times> request list" where
  "delete_product net product_id sent =
     (let (resp, sent') = make_request net DELETE (Item (JInt product_id)) [] None sent
      in case resp of
           Some r \<Rightarrow> (response_truthy resp \<and> status_code r \<in> {200, 204}, sent')
         | None \<Rightarrow> (False, sent'))"

text \<open>
  \<^verbatim>\<open>find_by_name\<close> and \<^verbatim>\<open>find_by_reference\<close> differ in the filtered field only:
  the first element of \<^verbatim>\<open>data["data"]\<close> when the status is 200 and the list is not empty.
  \<^verbatim>\<open>data.get\<close> raises \<^verbatim>\<open>AttributeError\<close> when the body is not an object.
\<close>

definition find_by :: "network \<Rightarrow> string \<Rightarrow> string \<Rightarrow> request list \<Rightarrow> (py_error + json option) \<times> request list" where
  "find_by net field wanted sent =
     (let (resp, sent') = make_request net GET Collection
                            [(''filters['' @ field @ ''][$eq]'', wanted)] None sent
      in case resp of
           None \<Rightarrow> (Inr None, sent')
         | Some r \<Rightarrow>
             if \<not> response_truthy resp \<or> status_code r \<noteq> 200 then (Inr None, sent')
             else (case response_json r of
                     Inl e \<Rightarrow> (Inl e, sent')
                   | Inr (JObj d) \<Rightarrow>
                       (case dict_get d ''data'' of
                          JList (x # xs) \<Rightarrow> (Inr (Some x), sent')
                        | JObj (kv # kvs) \<Rightarrow> (Inl KeyError, sent')
                        | JStr (c # cs) \<Rightarrow> (Inr (Some (JStr [c])), sent')
                        | JInt n \<Rightarrow> if n = 0 then (Inr None, sent') else (Inl TypeError, sent')
                        | JBool b \<Rightarrow> if b then (Inl TypeError, sent') else (Inr None, sent')
                        | _ \<Rightarrow> (Inr None, sent'))
                   | Inr _ \<Rightarrow> (Inl AttributeError, sent')))"

definition find_by_name :: "network \<Rightarrow> string \<Rightarrow> request list \<Rightarrow> (py_error + json option) \<times> request list" where
  "find_by_name net wanted sent = find_by net ''name'' wanted sent"

definition find_by_reference :: "network \<Rightarrow> string \<Rightarrow> request list \<Rightarrow> (py_error + json option) \<times> request list" where
  "find_by_reference net reference_string sent = find_by net ''referenceString'' reference_string sent"

text \<open>
  \<^verbatim>\<open>BatchUploader.upload_single_product\<close>. Its first two statements,
  \<^verbatim>\<open>product.get('data', {}).get('name', 'Unknown')\<close> and the same for \<^verbatim>\<open>referenceString\<close>,
  stand before the \<^verbatim>\<open>try\<close>: they raise \<^verbatim>\<open>AttributeError\<close> when the product or its
  \<^verbatim>\<open>data\<close> entry is not an object, and then no request is sent.
\<close>

definition product_field :: "json \<Rightarrow> string \<Rightarrow> json \<Rightarrow> py_error + json" where
  "product_field product key dflt =
     (case product of
        JObj p \<Rightarrow>
          (case map_of p ''data'' of
             None \<Rightarrow> Inr dflt
           | Some (JObj d) \<Rightarrow> Inr (case map_of d key of None \<Rightarrow> dflt | Some v \<Rightarrow> v)
           | Some _ \<Rightarrow> Inl AttributeError)
      | _ \<Rightarrow> Inl AttributeError)"

text \<open>The products for which these two statements do not raise.\<close>

definition has_data_object :: "json \<Rightarrow> bool" where
  "has_data_object product =
     (case product of
        JObj p \<Rightarrow> (case map_of p ''data'' of None \<Rightarrow> True | Some (JObj d) \<Rightarrow> True | Some _ \<Rightarrow> False)
      | _ \<Rightarrow> False)"

text \<open>
  Then one \<^verbatim>\<open>requests.post\<close> without a \<^verbatim>\<open>timeout\<close> argument, inside
  \<^verbatim>\<open>try ... except Exception\<close>. The result dictionary holds the name and the reference
  of the product and is either a success with the new id, an HTTP failure with the
  status, or a network error (any exception of the \<^verbatim>\<open>try\<close> block).
\<close>

datatype upload_result = Uploaded json | HttpFailure nat | NetworkError

record upload_report =
  report_name :: json
  report_reference :: json
  report_result :: upload_result

definition success :: "upload_result \<Rightarrow> bool" where
  "success res = (case res of Uploaded i \<Rightarrow> True | _ \<Rightarrow> False)"

definition post_product :: "network \<Rightarrow> json \<Rightarrow> request list \<Rightarrow> upload_result \<times> request list" where
  "post_product net product sent =
     (let req = \<lparr>req_method = POST, req_url = Collection, req_timeout = None,
                 req_params = [], req_json = Some product\<rparr>
      in case net (length sent) of
           Raises \<Rightarrow> (NetworkError, sent @ [req])
         | Returns r \<Rightarrow>
             if status_code r \<in> {200, 201} then
               (case response_json r of
                  Inl e \<Rightarrow> (NetworkError, sent @ [req])
                | Inr result \<Rightarrow>
                    (case subscript result ''data'' of
                       Inl e \<Rightarrow> (NetworkError, sent @ [req])
                     | Inr d \<Rightarrow>
                         (case subscript d ''id'' of
                            Inl e \<Rightarrow> (NetworkError, sent @ [req])
                          | Inr product_id \<Rightarrow> (Uploaded product_id, sent @ [req]))))
             else (HttpFailure (status_code r), sent @ [req]))"

definition upload_single_product ::
  "network \<Rightarrow> json \<Rightarrow> request list \<Rightarrow> (py_error + upload_report) \<times> request list" where
  "upload_single_product net product sent =
     (case product_field product ''name'' (JStr ''Unknown'') of
        Inl e \<Rightarrow> (Inl e, sent)
      | Inr product_name \<Rightarrow>
          (case product_field product ''referenceString'' (JStr ''No Reference'') of
             Inl e \<Rightarrow> (Inl e, sent)
           | Inr reference \<Rightarrow>
               (let (res, sent') = post_product net product sent
                in (Inr \<lparr>report_name = product_name, report_reference = reference,
                         report_result = res\<rparr>, sent'))))"

text \<open>The first response among the next \<open>n\<close> outcomes of the network, from index \<open>k\<close>.\<close>

fun first_reply :: "nat \<Rightarrow> network \<Rightarrow> nat \<Rightarrow> response option" where
  "first_reply 0 net k = None"
| "first_reply (Suc n) net k =
     (case net k of Returns r \<Rightarrow> Some r | Raises \<Rightarrow> first_reply n net (Suc k))"

text \<open>The number of attempts made: up to and including the first response.\<close>

fun attempts_made :: "nat \<Rightarrow> network \<Rightarrow> nat \<Rightarrow> nat" where
  "attempts_made 0 net k = 0"
| "attempts_made (Suc n) net k =
     (case net k of Returns r \<Rightarrow> 1 | Raises \<Rightarrow> Suc (attempts_made n net (Suc k)))"

lemma request_loop_eq:
  "request_loop n net req sent =
     (first_reply n net (length sent), sent @ replicate (attempts_made n net (length sent)) req)"
proof (induction n arbitrary: sent)
  case 0
  show ?case by simp
next
  case (Suc n)
  show ?case
  proof (cases "net (length sent)")
    case Raises
    then show ?thesis using Suc [of "sent @ [req]"] by (simp add: replicate_app_Cons_same)
  next
    case (Returns r)
    then show ?thesis by simp
  qed
qed

lemma attempts_made_le: "attempts_made n net k \<le> n"
  by (induction n arbitrary: k) (auto split: outcome.splits)

lemma first_reply_None: "first_reply n net k = None \<longleftrightarrow> (\<forall>i < n. net (k + i) = Raises)"
proof (induction n arbitrary: k)
  case 0
  show ?case by simp
next
  case (Suc n)
  show ?case
  proof (cases "net k")
    case Raises
    have "(\<forall>i < Suc n. net (k + i) = Raises) \<longleftrightarrow> (\<forall>i < n. net (Suc k + i) = Raises)"
    proof
      assume a: "\<forall>i < Suc n. net (k + i) = Raises"
      show "\<forall>i < n. net (Suc k + i) = Raises"
      proof (intro allI impI)
        fix i assume "i < n"
        then have "net (k + Suc i) = Raises" using a by (meson Suc_less_eq)
        then show "net (Suc k + i) = Raises" by simp
      qed
    next
      assume a: "\<forall>i < n. net (Suc k + i) = Raises"
      show "\<forall>i < Suc n. net (k + i) = Raises"
      proof (intro allI impI)
        fix i assume "i < Suc n"
        then show "net (k + i) = Raises"
          using a Raises by (cases i) auto
      qed
    qed
    then show ?thesis using Raises Suc by simp
  next
    case (Returns r)
    then show ?thesis by (auto intro: exI [of _ 0])
  qed
qed

lemma make_request_eq:
  "make_request net m url params js sent =
     (first_reply MAX_RETRIES net (length sent),
      sent @ replicate (attempts_made MAX_RETRIES net (length sent))
        \<lparr>req_method = m, req_url = url, req_timeout = Some TIMEOUT,
         req_params = params, req_json = js\<rparr>)"
  by (simp add: make_request_def request_loop_eq)

lemma make_request_bounds:
  assumes "make_request net m url params js sent = (resp, sent')"
  shows "resp = first_reply MAX_RETRIES net (length sent)"
    and "length sent' \<le> length sent + MAX_RETRIES"
    and "take (length sent) sent' = sent"
    and "\<forall>q \<in> set (drop (length sent) sent'). req_timeout q = Some TIMEOUT"
    and "\<forall>r. net (length sent) = Returns r \<longrightarrow> resp = Some r \<and> length sent' = Suc (length sent)"
proof -
  let ?q = "\<lparr>req_method = m, req_url = url, req_timeout = Some TIMEOUT,
         req_params = params, req_json = js\<rparr>"
  let ?k = "attempts_made MAX_RETRIES net (length sent)"
  from assms have resp: "resp = first_reply MAX_RETRIES net (length sent)"
    and sent': "sent' = sent @ replicate ?k ?q"
    by (simp_all add: make_request_eq)
  show "resp = first_reply MAX_RETRIES net (length sent)" by (rule resp)
  show "length sent' \<le> length sent + MAX_RETRIES"
    using attempts_made_le [of MAX_RETRIES net "length sent"] by (simp add: sent')
  show "take (length sent) sent' = sent" by (simp add: sent')
  show "\<forall>q \<in> set (drop (length sent) sent'). req_timeout q = Some TIMEOUT"
    by (auto simp: sent')
  show "\<forall>r. net (length sent) = Returns r \<longrightarrow> resp = Some r \<and> length sent' = Suc (length sent)"
    by (auto simp: resp sent' MAX_RETRIES_def numeral_3_eq_3)
qed

lemma upsert_product_sent:
  assumes "upsert_product net payload existing sent = (res, sent')"
  shows "length sent' \<le> length sent + MAX_RETRIES \<and> take (length sent) sent' = sent \<and>
         (\<forall>q \<in> set (drop (length sent) sent'). req_timeout q = Some TIMEOUT)"
proof (cases "existing_truthy existing")
  case True
  show ?thesis
  proof (cases "map_of (case existing of Some d \<Rightarrow> d | None \<Rightarrow> []) ''id''")
    case None
    with True assms show ?thesis by (simp add: upsert_product_def)
  next
    case (Some product_id)
    obtain resp s1 where mr: "make_request net PUT (Item product_id) [] (Some (JObj payload)) sent = (resp, s1)"
      by (cases "make_request net PUT (Item product_id) [] (Some (JObj payload)) sent")
    with True Some assms have "sent' = s1"
      by (auto simp: upsert_product_def split: option.splits if_splits)
    then show ?thesis using make_request_bounds(2-4) [OF mr] by simp
  qed
next
  case False
  obtain resp s1 where mr: "make_request net POST Collection [] (Some (JObj payload)) sent = (resp, s1)"
    by (cases "make_request net POST Collection [] (Some (JObj payload)) sent")
  with False assms have "sent' = s1"
    by (auto simp: upsert_product_def split: option.splits if_splits)
  then show ?thesis using make_request_bounds(2-4) [OF mr] by simp
qed

lemma upsert_product_success:
  assumes "upsert_product net payload existing sent = (Inr (Some d), sent')"
  shows "\<exists>r. first_reply MAX_RETRIES net (length sent) = Some r \<and> status_code r \<in> {200, 201}"
  using assms
  by (auto simp: upsert_product_def make_request_eq split: if_splits option.splits)

lemma upsert_product_failure:
  assumes "first_reply MAX_RETRIES net (length sent) = None \<or>
           (\<exists>r. first_reply MAX_RETRIES net (length sent) = Some r \<and> status_code r \<notin> {200, 201})"
      and "\<not> existing_truthy existing \<or> (\<exists>d i. existing = Some d \<and> map_of d ''id'' = Some i)"
  shows "fst (upsert_product net payload existing sent) = Inr None"
  using assms
  by (auto simp: upsert_product_def make_request_eq existing_truthy_def split: option.splits)

lemma upsert_product_key_error:
  assumes "existing_truthy existing" and "\<forall>d. existing = Some d \<longrightarrow> map_of d ''id'' = None"
  shows "upsert_product net payload existing sent = (Inl KeyError, sent)"
  using assms
  by (cases existing) (simp_all add: upsert_product_def existing_truthy_def)

lemma delete_product_result:
  assumes "delete_product net product_id sent = (ok, sent')"
  shows "(ok \<longleftrightarrow> (\<exists>r. first_reply MAX_RETRIES net (length sent) = Some r \<and> status_code r \<in> {200, 204})) \<and>
         length sent' \<le> length sent + MAX_RETRIES \<and>
         (\<forall>q \<in> set (drop (length sent) sent'). req_timeout q = Some TIMEOUT)"
proof -
  obtain resp s1 where mr: "make_request net DELETE (Item (JInt product_id)) [] None sent = (resp, s1)"
    by (cases "make_request net DELETE (Item (JInt product_id)) [] None sent")
  from assms mr have s: "sent' = s1"
    and ok: "ok \<longleftrightarrow> (\<exists>r. resp = Some r \<and> status_code r \<in> {200, 204})"
    by (auto simp: delete_product_def response_truthy_def split: option.splits)
  show ?thesis
    using make_request_bounds(1,2,4) [OF mr] s ok by simp
qed

lemma find_by_sent:
  assumes "find_by net field wanted sent = (res, sent')"
  shows "length sent' \<le> length sent + MAX_RETRIES \<and>
         (\<forall>q \<in> set (drop (length sent) sent'). req_timeout q = Some TIMEOUT)"
proof -
  obtain resp s1 where mr: "make_request net GET Collection
      [(''filters['' @ field @ ''][$eq]'', wanted)] None sent = (resp, s1)"
    by (cases "make_request net GET Collection [(''filters['' @ field @ ''][$eq]'', wanted)] None sent")
  from assms mr have "sent' = s1"
    by (auto simp: find_by_def split: option.splits if_splits sum.splits json.splits list.splits)
  then show ?thesis using make_request_bounds(2,4) [OF mr] by simp
qed

lemma product_field_ok:
  "has_data_object product \<Longrightarrow> \<exists>v. product_field product key dflt = Inr v"
  by (auto simp: has_data_object_def product_field_def split: json.splits option.splits)

lemma product_field_raises:
  "\<not> has_data_object product \<Longrightarrow> product_field product key dflt = Inl AttributeError"
  by (auto simp: has_data_object_def product_field_def split: json.splits option.splits)

lemma post_product_result:
  assumes "post_product net product sent = (res, sent')"
  shows "sent' = sent @ [\<lparr>req_method = POST, req_url = Collection, req_timeout = None,
                 req_params = [], req_json = Some product\<rparr>] \<and>
         (success res \<longrightarrow> (\<exists>r. net (length sent) = Returns r \<and> status_code r \<in> {200, 201})) \<and>
         (net (length sent) = Raises \<longrightarrow> res = NetworkError) \<and>
         (\<forall>r. net (length sent) = Returns r \<and> status_code r \<notin> {200, 201}
               \<longrightarrow> res = HttpFailure (status_code r))"
  using assms
  by (auto simp: post_product_def Let_def success_def split: outcome.splits if_splits sum.splits)

lemma upload_single_product_raises:
  assumes "\<not> has_data_object product"
  shows "upload_single_product net product sent = (Inl AttributeError, sent)"
  by (simp add: upload_single_product_def product_field_raises [OF assms])

lemma upload_single_product_result:
  assumes "has_data_object product" and "upload_single_product net product sent = (up, sent')"
  shows "sent' = sent @ [\<lparr>req_method = POST, req_url = Collection, req_timeout = None,
                 req_params = [], req_json = Some product\<rparr>] \<and>
         (\<exists>rep. up = Inr rep \<and>
            (success (report_result rep) \<longrightarrow>
               (\<exists>r. net (length sent) = Returns r \<and> status_code r \<in> {200, 201})) \<and>
            (net (length sent) = Raises \<longrightarrow> report_result rep = NetworkError) \<and>
            (\<forall>r. net (length sent) = Returns r \<and> status_code r \<notin> {200, 201}
                  \<longrightarrow> report_result rep = HttpFailure (status_code r)))"
proof -
  from product_field_ok [OF assms(1)] obtain n where
    n: "product_field product ''name'' (JStr ''Unknown'') = Inr n" by blast
  from product_field_ok [OF assms(1)] obtain f where
    f: "product_field product ''referenceString'' (JStr ''No Reference'') = Inr f" by blast
  obtain res s1 where post: "post_product net product sent = (res, s1)"
    by (cases "post_product net product sent")
  from assms(2) have up: "up = Inr \<lparr>report_name = n, report_reference = f, report_result = res\<rparr>"
    and s1: "sent' = s1"
    by (simp_all add: upload_single_product_def n f post)
  note r = post_product_result [OF post]
  have "\<exists>rep. up = Inr rep \<and>
            (success (report_result rep) \<longrightarrow>
               (\<exists>r. net (length sent) = Returns r \<and> status_code r \<in> {200, 201})) \<and>
            (net (length sent) = Raises \<longrightarrow> report_result rep = NetworkError) \<and>
            (\<forall>r. net (length sent) = Returns r \<and> status_code r \<notin> {200, 201}
                  \<longrightarrow> report_result rep = HttpFailure (status_code r))"
    unfolding up using r by simp
  then show ?thesis using r s1 by simp
qed

text \<open>
  Claim C4 as stated fails for the batch uploader: its single \<^verbatim>\<open>requests.post\<close> carries
  no timeout, and after a transport failure no second attempt is made.
\<close>

theorem upload_single_product_counterexample:
  "upload_single_product (\<lambda>n. Raises) (JObj []) []
   = (Inr \<lparr>report_name = JStr ''Unknown'', report_reference = JStr ''No Reference'',
           report_result = NetworkError\<rparr>,
      [\<lparr>req_method = POST, req_url = Collection, req_timeout = None,
        req_params = [], req_json = Some (JObj [])\<rparr>])"
  by (simp add: upload_single_product_def product_field_def post_product_def)

text \<open>
  Claim C4, amended. Every request that goes through \<^verbatim>\<open>_make_request\<close> of utils/strapi.py
  (create, update, delete, and the two finders, which are \<open>find_by\<close> for the fields
  \<^verbatim>\<open>name\<close> and \<^verbatim>\<open>referenceString\<close>) is sent with the timeout of 5 seconds, at most
  \<^verbatim>\<open>MAX_RETRIES\<close> = 3 times, and a new attempt follows a transport failure only: a response
  of any status ends the loop at once. Create/update yields a product only when the
  reply has status 200 or 201. When there is no reply or the status is another one it
  yields \<^verbatim>\<open>None\<close> without raising, provided that the existing record, if one is given,
  has an \<^verbatim>\<open>id\<close>; an existing record without \<^verbatim>\<open>id\<close> makes it raise \<^verbatim>\<open>KeyError\<close> before any
  request is sent. Delete yields \<^verbatim>\<open>True\<close> exactly for a reply with status 200 or 204.
  The batch uploader raises \<^verbatim>\<open>AttributeError\<close>, sending nothing, for a product that is not
  an object or whose \<^verbatim>\<open>data\<close> entry is not an object; for every other product it sends
  exactly one POST, without timeout and without retry, and returns a result without
  raising: a success only for status 200 or 201, an HTTP failure for any other status,
  a network error when the request raises.
\<close>

theorem upload_client_status_handling:
  "(make_request net m url params js sent = (resp, sent1) \<longrightarrow>
      resp = first_reply MAX_RETRIES net (length sent) \<and>
      length sent1 \<le> length sent + MAX_RETRIES \<and>
      take (length sent) sent1 = sent \<and>
      (\<forall>q \<in> set (drop (length sent) sent1). req_timeout q = Some TIMEOUT) \<and>
      (\<forall>r. net (length sent) = Returns r \<longrightarrow> resp = Some r \<and> length sent1 = Suc (length sent)) \<and>
      (resp = None \<longleftrightarrow> (\<forall>i < MAX_RETRIES. net (length sent + i) = Raises))) \<and>
   (upsert_product net payload existing sent = (res, sent2) \<longrightarrow>
      length sent2 \<le> length sent + MAX_RETRIES \<and>
      (\<forall>q \<in> set (drop (length sent) sent2). req_timeout q = Some TIMEOUT) \<and>
      (\<forall>d. res = Inr (Some d) \<longrightarrow>
         (\<exists>r. first_reply MAX_RETRIES net (length sent) = Some r \<and> status_code r \<in> {200, 201})) \<and>
      ((first_reply MAX_RETRIES net (length sent) = None \<or>
        (\<exists>r. first_reply MAX_RETRIES net (length sent) = Some r \<and> status_code r \<notin> {200, 201})) \<and>
       (\<not> existing_truthy existing \<or> (\<exists>d i. existing = Some d \<and> map_of d ''id'' = Some i))
         \<longrightarrow> res = Inr None) \<and>
      (existing_truthy existing \<and> (\<forall>d. existing = Some d \<longrightarrow> map_of d ''id'' = None)
         \<longrightarrow> res = Inl KeyError \<and> sent2 = sent)) \<and>
   (delete_product net product_id sent = (ok, sent3) \<longrightarrow>
      (ok \<longleftrightarrow> (\<exists>r. first_reply MAX_RETRIES net (length sent) = Some r \<and> status_code r \<in> {200, 204})) \<and>
      length sent3 \<le> length sent + MAX_RETRIES \<and>
      (\<forall>q \<in> set (drop (length sent) sent3). req_timeout q = Some TIMEOUT)) \<and>
   (upload_single_product net product sent = (up, sent4) \<longrightarrow>
      (\<not> has_data_object product \<longrightarrow> up = Inl AttributeError \<and> sent4 = sent) \<and>
      (has_data_object product \<longrightarrow>
         sent4 = sent @ [\<lparr>req_method = POST, req_url = Collection, req_timeout = None,
                           req_params = [], req_json = Some product\<rparr>] \<and>
         (\<exists>rep. up = Inr rep \<and>
            (success (report_result rep) \<longrightarrow>
               (\<exists>r. net (length sent) = Returns r \<and> status_code r \<in> {200, 201})) \<and>
            (net (length sent) = Raises \<longrightarrow> report_result rep = NetworkError) \<and>
            (\<forall>r. net (length sent) = Returns r \<and> status_code r \<notin> {200, 201}
                  \<longrightarrow> report_result rep = HttpFailure (status_code r))))) \<and>
   (find_by net field wanted sent = (found, sent5) \<longrightarrow>
      length sent5 \<le> length sent + MAX_RETRIES \<and>
      (\<forall>q \<in> set (drop (length sent) sent5). req_timeout q = Some TIMEOUT))"
proof -
  have a: "make_request net m url params js sent = (resp, sent1) \<longrightarrow>
      resp = first_reply MAX_RETRIES net (length sent) \<and>
      length sent1 \<le> length sent + MAX_RETRIES \<and>
      take (length sent) sent1 = sent \<and>
      (\<forall>q \<in> set (drop (length sent) sent1). req_timeout q = Some TIMEOUT) \<and>
      (\<forall>r. net (length sent) = Returns r \<longrightarrow> resp = Some r \<and> length sent1 = Suc (length sent)) \<and>
      (resp = None \<longleftrightarrow> (\<forall>i < MAX_RETRIES. net (length sent + i) = Raises))"
  proof
    assume mr: "make_request net m url params js sent = (resp, sent1)"
    note b = make_request_bounds [OF mr]
    have "resp = None \<longleftrightarrow> (\<forall>i < MAX_RETRIES. net (length sent + i) = Raises)"
      unfolding b(1) by (rule first_reply_None)
    then show "resp = first_reply MAX_RETRIES net (length sent) \<and>
      length sent1 \<le> length sent + MAX_RETRIES \<and>
      take (length sent) sent1 = sent \<and>
      (\<forall>q \<in> set (drop (length sent) sent1). req_timeout q = Some TIMEOUT) \<and>
      (\<forall>r. net (length sent) = Returns r \<longrightarrow> resp = Some r \<and> length sent1 = Suc (length sent)) \<and>
      (resp = None \<longleftrightarrow> (\<forall>i < MAX_RETRIES. net (length sent + i) = Raises))"
      by (intro conjI) (rule b(1), rule b(2), rule b(3), rule b(4), rule b(5), assumption)
  qed
  have b: "upsert_product net payload existing sent = (res, sent2) \<longrightarrow>
      length sent2 \<le> length sent + MAX_RETRIES \<and>
      (\<forall>q \<in> set (drop (length sent) sent2). req_timeout q = Some TIMEOUT) \<and>
      (\<forall>d. res = Inr (Some d) \<longrightarrow>
         (\<exists>r. first_reply MAX_RETRIES net (length sent) = Some r \<and> status_code r \<in> {200, 201})) \<and>
      ((first_reply MAX_RETRIES net (length sent) = None \<or>
        (\<exists>r. first_reply MAX_RETRIES net (length sent) = Some r \<and> status_code r \<notin> {200, 201})) \<and>
       (\<not> existing_truthy existing \<or> (\<exists>d i. existing = Some d \<and> map_of d ''id'' = Some i))
         \<longrightarrow> res = Inr None) \<and>
      (existing_truthy existing \<and> (\<forall>d. existing = Some d \<longrightarrow> map_of d ''id'' = None)
         \<longrightarrow> res = Inl KeyError \<and> sent2 = sent)"
  proof
    assume up: "upsert_product net payload existing sent = (res, sent2)"
    have s: "\<forall>d. res = Inr (Some d) \<longrightarrow>
         (\<exists>r. first_reply MAX_RETRIES net (length sent) = Some r \<and> status_code r \<in> {200, 201})"
    proof (intro allI impI)
      fix d assume "res = Inr (Some d)"
      with up have "upsert_product net payload existing sent = (Inr (Some d), sent2)" by simp
      then show "\<exists>r. first_reply MAX_RETRIES net (length sent) = Some r \<and> status_code r \<in> {200, 201}"
        by (rule upsert_product_success)
    qed
    have f: "(first_reply MAX_RETRIES net (length sent) = None \<or>
        (\<exists>r. first_reply MAX_RETRIES net (length sent) = Some r \<and> status_code r \<notin> {200, 201})) \<and>
       (\<not> existing_truthy existing \<or> (\<exists>d i. existing = Some d \<and> map_of d ''id'' = Some i))
         \<longrightarrow> res = Inr None"
    proof
      assume "(first_reply MAX_RETRIES net (length sent) = None \<or>
        (\<exists>r. first_reply MAX_RETRIES net (length sent) = Some r \<and> status_code r \<notin> {200, 201})) \<and>
       (\<not> existing_truthy existing \<or> (\<exists>d i. existing = Some d \<and> map_of d ''id'' = Some i))"
      then have "fst (upsert_product net payload existing sent) = Inr None"
        by (intro upsert_product_failure) (erule conjunct1, erule conjunct2)
      with up show "res = Inr None" by simp
    qed
    have k: "existing_truthy existing \<and> (\<forall>d. existing = Some d \<longrightarrow> map_of d ''id'' = None)
         \<longrightarrow> res = Inl KeyError \<and> sent2 = sent"
    proof
      assume "existing_truthy existing \<and> (\<forall>d. existing = Some d \<longrightarrow> map_of d ''id'' = None)"
      then have "upsert_product net payload existing sent = (Inl KeyError, sent)"
        by (intro upsert_product_key_error) (erule conjunct1, erule conjunct2)
      with up show "res = Inl KeyError \<and> sent2 = sent" by simp
    qed
    note t = upsert_product_sent [OF up]
    show "length sent2 \<le> length sent + MAX_RETRIES \<and>
      (\<forall>q \<in> set (drop (length sent) sent2). req_timeout q = Some TIMEOUT) \<and>
      (\<forall>d. res = Inr (Some d) \<longrightarrow>
         (\<exists>r. first_reply MAX_RETRIES net (length sent) = Some r \<and> status_code r \<in> {200, 201})) \<and>
      ((first_reply MAX_RETRIES net (length sent) = None \<or>
        (\<exists>r. first_reply MAX_RETRIES net (length sent) = Some r \<and> status_code r \<notin> {200, 201})) \<and>
       (\<not> existing_truthy existing \<or> (\<exists>d i. existing = Some d \<and> map_of d ''id'' = Some i))
         \<longrightarrow> res = Inr None) \<and>
      (existing_truthy existing \<and> (\<forall>d. existing = Some d \<longrightarrow> map_of d ''id'' = None)
         \<longrightarrow> res = Inl KeyError \<and> sent2 = sent)"
      by (rule conjI [OF t [THEN conjunct1] conjI [OF t [THEN conjunct2, THEN conjunct2]
            conjI [OF s conjI [OF f k]]]])
  qed
  have c: "delete_product net product_id sent = (ok, sent3) \<longrightarrow>
      (ok \<longleftrightarrow> (\<exists>r. first_reply MAX_RETRIES net (length sent) = Some r \<and> status_code r \<in> {200, 204})) \<and>
      length sent3 \<le> length sent + MAX_RETRIES \<and>
      (\<forall>q \<in> set (drop (length sent) sent3). req_timeout q = Some TIMEOUT)"
    by (rule impI) (erule delete_product_result)
  have d: "upload_single_product net product sent = (up, sent4) \<longrightarrow>
      (\<not> has_data_object product \<longrightarrow> up = Inl AttributeError \<and> sent4 = sent) \<and>
      (has_data_object product \<longrightarrow>
         sent4 = sent @ [\<lparr>req_method = POST, req_url = Collection, req_timeout = None,
                           req_params = [], req_json = Some product\<rparr>] \<and>
         (\<exists>rep. up = Inr rep \<and>
            (success (report_result rep) \<longrightarrow>
               (\<exists>r. net (length sent) = Returns r \<and> status_code r \<in> {200, 201})) \<and>
            (net (length sent) = Raises \<longrightarrow> report_result rep = NetworkError) \<and>
            (\<forall>r. net (length sent) = Returns r \<and> status_code r \<notin> {200, 201}
                  \<longrightarrow> report_result rep = HttpFailure (status_code r))))"
  proof
    assume run: "upload_single_product net product sent = (up, sent4)"
    have bad: "\<not> has_data_object product \<longrightarrow> up = Inl AttributeError \<and> sent4 = sent"
    proof
      assume "\<not> has_data_object product"
      then have "upload_single_product net product sent = (Inl AttributeError, sent)"
        by (rule upload_single_product_raises)
      with run show "up = Inl AttributeError \<and> sent4 = sent" by simp
    qed
    have good: "has_data_object product \<longrightarrow>
         sent4 = sent @ [\<lparr>req_method = POST, req_url = Collection, req_timeout = None,
                           req_params = [], req_json = Some product\<rparr>] \<and>
         (\<exists>rep. up = Inr rep \<and>
            (success (report_result rep) \<longrightarrow>
               (\<exists>r. net (length sent) = Returns r \<and> status_code r \<in> {200, 201})) \<and>
            (net (length sent) = Raises \<longrightarrow> report_result rep = NetworkError) \<and>
            (\<forall>r. net (length sent) = Returns r \<and> status_code r \<notin> {200, 201}
                  \<longrightarrow> report_result rep = HttpFailure (status_code r)))"
      by (rule impI) (rule upload_single_product_result [OF _ run])
    show "(\<not> has_data_object product \<longrightarrow> up = Inl AttributeError \<and> sent4 = sent) \<and>
      (has_data_object product \<longrightarrow>
         sent4 = sent @ [\<lparr>req_method = POST, req_url = Collection, req_timeout = None,
                           req_params = [], req_json = Some product\<rparr>] \<and>
         (\<exists>rep. up = Inr rep \<and>
            (success (report_result rep) \<longrightarrow>
               (\<exists>r. net (length sent) = Returns r \<and> status_code r \<in> {200, 201})) \<and>
            (net (length sent) = Raises \<longrightarrow> report_result rep = NetworkError) \<and>
            (\<forall>r. net (length sent) = Returns r \<and> status_code r \<notin> {200, 201}
                  \<longrightarrow> report_result rep = HttpFailure (status_code r))))"
      by (rule conjI [OF bad good])
  qed
  have e: "find_by net field wanted sent = (found, sent5) \<longrightarrow>
      length sent5 \<le> length sent + MAX_RETRIES \<and>
      (\<forall>q \<in> set (drop (length sent) sent5). req_timeout q = Some TIMEOUT)"
    by (rule impI) (erule find_by_sent)
  show ?thesis by (rule conjI [OF a conjI [OF b conjI [OF c conjI [OF d e]]]])
qed

text \<open>
  Two transport failures followed by a 201 reply: the product is created with the
  third attempt. A 500 reply: one attempt, and the result is \<^verbatim>\<open>None\<close>. A product that is
  a string: the batch uploader raises and sends nothing.
\<close>

definition created_reply :: response where
  "created_reply = \<lparr>status_code = 201, body = Some (JObj [(''data'', JObj [(''id'', JInt 7)])])\<rparr>"

definition flaky_network :: network where
  "flaky_network n = (if n < 2 then Raises else Returns created_reply)"

definition failing_network :: network where
  "failing_network n = Returns \<lparr>status_code = 500, body = None\<rparr>"

lemma flaky_upsert:
  "upsert_product flaky_network [(''data'', JObj [(''name'', JStr ''Syringe'')])] None []
   = (Inr (Some (JObj [(''id'', JInt 7)])),
      replicate 3 \<lparr>req_method = POST, req_url = Collection, req_timeout = Some 5, req_params = [],
                     req_json = Some (JObj [(''data'', JObj [(''name'', JStr ''Syringe'')])])\<rparr>)"
  by code_simp

lemma failing_reply: "first_reply MAX_RETRIES failing_network 0
   = Some \<lparr>status_code = 500, body = None\<rparr>"
  by code_simp

theorem upload_client_status_handling_witness:
  "first_reply MAX_RETRIES flaky_network 0 = Some created_reply \<and>
   status_code created_reply = 201 \<and>
   fst (upsert_product failing_network [] None []) = Inr None \<and>
   upload_single_product failing_network (JStr ''Syringe'') [] = (Inl AttributeError, [])"
proof -
  let ?payload = "[(''data'', JObj [(''name'', JStr ''Syringe'')])]"
  let ?sent = "replicate 3 \<lparr>req_method = POST, req_url = Collection, req_timeout = Some 5, req_params = [],
                     req_json = Some (JObj ?payload)\<rparr>"
  note flaky = upload_client_status_handling [THEN conjunct2, THEN conjunct1, THEN mp,
      OF flaky_upsert, THEN conjunct2, THEN conjunct2, THEN conjunct1, rule_format, OF refl]
  then obtain r where r: "first_reply MAX_RETRIES flaky_network (length ([] :: request list)) = Some r"
    and st: "status_code r \<in> {200, 201}"
    by (elim exE conjE)
  have "first_reply MAX_RETRIES flaky_network (length ([] :: request list)) = Some created_reply"
    by code_simp
  then have first: "first_reply MAX_RETRIES flaky_network 0 = Some created_reply" by simp
  have second: "status_code created_reply = 201" by (simp add: created_reply_def)
  obtain res s2 where up: "upsert_product failing_network [] None [] = (res, s2)"
    by (cases "upsert_product failing_network [] None []")
  note failing = upload_client_status_handling [THEN conjunct2, THEN conjunct1, THEN mp,
      OF up, THEN conjunct2, THEN conjunct2, THEN conjunct2, THEN conjunct1, THEN mp]
  have hyp: "(first_reply MAX_RETRIES failing_network (length ([] :: request list)) = None \<or>
        (\<exists>r. first_reply MAX_RETRIES failing_network (length ([] :: request list)) = Some r \<and>
             status_code r \<notin> {200, 201})) \<and>
       (\<not> existing_truthy None \<or> (\<exists>d i. None = Some d \<and> map_of d ''id'' = Some i))"
    by (simp add: failing_reply existing_truthy_def)
  have third: "res = Inr None" by (rule failing [OF hyp])
  obtain rep s4 where run: "upload_single_product failing_network (JStr ''Syringe'') [] = (rep, s4)"
    by (cases "upload_single_product failing_network (JStr ''Syringe'') []")
  note raising = upload_client_status_handling [THEN conjunct2, THEN conjunct2, THEN conjunct2,
      THEN conjunct1, THEN mp, OF run, THEN conjunct1, THEN mp]
  have "\<not> has_data_object (JStr ''Syringe'')" by (simp add: has_data_object_def)
  then have "rep = Inl AttributeError \<and> s4 = []" by (rule raising)
  with run have fourth: "upload_single_product failing_network (JStr ''Syringe'') []
      = (Inl AttributeError, [])" by simp
  from first second third up fourth show ?thesis by simp
qed

section \<open>Value parsers (excel\_to\_products.py, excel\_to\_products\_enriched.py)\<close>

subsection \<open>Decimal strings to doubles\<close>

text \<open>
  \<^verbatim>\<open>float(s)\<close> reads a decimal literal and rounds it to the nearest IEEE 754 double, ties
  to even. The literal denotes the fraction \<open>N / D\<close> of two natural numbers; the double
  is \<open>m * 2 ^ q\<close> with \<open>m < 2 ^ 53\<close> (or \<open>m = 2 ^ 53\<close> after rounding up) and \<open>q \<ge> -1074\<close>.
\<close>

function bit_length :: "int \<Rightarrow> int" where
  "bit_length n = (if n \<le> 0 then 0 else 1 + bit_length (n div 2))"
  by pat_completeness auto
termination
  by (relation "measure nat") auto

declare bit_length.simps [simp del]

text \<open>\<open>2 ^ e \<le> N / D\<close>, for an integer \<open>e\<close>.\<close>

definition pow2_le :: "int \<Rightarrow> int \<Rightarrow> int \<Rightarrow> bool" where
  "pow2_le e N D = (if 0 \<le> e then D * 2 ^ nat e \<le> N else D \<le> N * 2 ^ nat (- e))"

text \<open>The binary exponent \<open>\<lfloor>log\<^sub>2 (N / D)\<rfloor>\<close> of a positive fraction.\<close>

definition floor_log2 :: "int \<Rightarrow> int \<Rightarrow> int" where
  "floor_log2 N D =
     (let e0 = bit_length N - bit_length D
      in if pow2_le e0 N D then e0 else e0 - 1)"

definition round_half_even :: "int \<Rightarrow> int \<Rightarrow> int" where
  "round_half_even num den =
     (let f = num div den; r = num mod den
      in if 2 * r < den then f
         else if den < 2 * r then f + 1
         else if even f then f else f + 1)"

text \<open>The nearest double as \<open>(m, q)\<close>; \<open>None\<close> when the value rounds to infinity.\<close>

definition to_double :: "int \<Rightarrow> int \<Rightarrow> (int \<times> int) option" where
  "to_double N D =
     (if N = 0 then Some (0, 0)
      else let e = floor_log2 N D;
               q = max (e - 52) (- 1074);
               m = (if 0 \<le> q then round_half_even N (D * 2 ^ nat q)
                    else round_half_even (N * 2 ^ nat (- q)) D)
           in if 0 \<le> q \<and> 2 ^ 1024 \<le> m * 2 ^ nat q then None else Some (m, q))"

datatype pyfloat = Double int int int | Infinity int | NotANumber

text \<open>
  \<^verbatim>\<open>s.split(c, 1)\<close>: the part before the first character that satisfies \<open>P\<close>, and the
  part after it when there is such a character.
\<close>

fun split_at :: "(char \<Rightarrow> bool) \<Rightarrow> string \<Rightarrow> string \<times> string option" where
  "split_at P [] = ([], None)"
| "split_at P (c # cs) =
     (if P c then ([], Some cs)
      else (case split_at P cs of (a, b) \<Rightarrow> (c # a, b)))"

text \<open>
  The grammar of \<^verbatim>\<open>float\<close>: an optional sign, then \<^verbatim>\<open>inf\<close>, \<^verbatim>\<open>infinity\<close>, \<^verbatim>\<open>nan\<close> (in any case)
  or a number: digit parts around an optional point, at least one of them present,
  and an optional exponent \<^verbatim>\<open>e\<close> with optional sign and a digit part.
\<close>

definition mantissa_ok :: "string \<Rightarrow> string option \<Rightarrow> bool" where
  "mantissa_ok ip fp =
     (case fp of
        None \<Rightarrow> digitpart ip
      | Some f \<Rightarrow> (ip = [] \<or> digitpart ip) \<and> (f = [] \<or> digitpart f) \<and> \<not> (ip = [] \<and> f = []))"

definition exponent_ok :: "string option \<Rightarrow> bool" where
  "exponent_ok ex = (case ex of None \<Rightarrow> True | Some x \<Rightarrow> digitpart (snd (split_sign x)))"

definition exponent_value :: "string option \<Rightarrow> int" where
  "exponent_value ex =
     (case ex of
        None \<Rightarrow> 0
      | Some x \<Rightarrow> (let (sign, ds) = split_sign x in sign * digits_value ds))"

definition py_float :: "string \<Rightarrow> py_error + pyfloat" where
  "py_float s =
     (let (sign, body) = split_sign (str_lower (str_strip s))
      in if body = ''inf'' \<or> body = ''infinity'' then Inr (Infinity sign)
         else if body = ''nan'' then Inr NotANumber
         else let (mant, ex) = split_at (\<lambda>c. c = CHR ''e'') body;
                  (ip, fp) = split_at (\<lambda>c. c = CHR ''.'') mant
              in if mantissa_ok ip fp \<and> exponent_ok ex then
                   (let frac = (case fp of None \<Rightarrow> [] | Some f \<Rightarrow> filter is_digit f);
                        digs = digits_value (ip @ frac);
                        e10 = exponent_value ex - int (length frac)
                    in case (if 0 \<le> e10 then to_double (digs * 10 ^ nat e10) 1
                             else to_double digs (10 ^ nat (- e10))) of
                         None \<Rightarrow> Inr (Infinity sign)
                       | Some (m, q) \<Rightarrow> Inr (Double sign m q))
                 else Inl ValueError)"

text \<open>
  \<^verbatim>\<open>int(f)\<close> truncates towards zero; it raises \<^verbatim>\<open>OverflowError\<close> for an infinity and
  \<^verbatim>\<open>ValueError\<close> for a NaN.
\<close>

fun int_of_float :: "pyfloat \<Rightarrow> py_error + int" where
  "int_of_float (Double sign m q) =
     Inr (sign * (if 0 \<le> q then m * 2 ^ nat q else m div 2 ^ nat (- q)))"
| "int_of_float (Infinity sign) = Inl OverflowError"
| "int_of_float NotANumber = Inl ValueError"

definition int_float :: "string \<Rightarrow> py_error + int" where
  "int_float s = (case py_float s of Inl e \<Rightarrow> Inl e | Inr f \<Rightarrow> int_of_float f)"

subsection \<open>\<^verbatim>\<open>parse_int\<close>\<close>

text \<open>\<^verbatim>\<open>s.replace(c, "")\<close> for a one-character \<open>c\<close>.\<close>

definition remove_char :: "char \<Rightarrow> string \<Rightarrow> string" where
  "remove_char c s = filter (\<lambda>d. d \<noteq> c) s"

text \<open>\<^verbatim>\<open>DIGITS.findall(s)\<close> with \<^verbatim>\<open>DIGITS = re.compile(r"[0-9]+")\<close>: the maximal runs of digits.\<close>

function findall_digits :: "string \<Rightarrow> string list" where
  "findall_digits [] = []"
| "findall_digits (c # cs) =
     (if is_digit c then takeWhile is_digit (c # cs) # findall_digits (dropWhile is_digit cs)
      else findall_digits cs)"
  by pat_completeness auto
termination
  by (relation "measure length") (auto simp: less_Suc_eq_le length_dropWhile_le)

text \<open>
  The text of the cell as \<^verbatim>\<open>parse_int\<close> looks at it: stripped and lower-cased, and, once
  it is known not to be a placeholder, without apostrophes, commas and spaces.
\<close>

definition cell_text :: "cell \<Rightarrow> string" where
  "cell_text x = str_lower (str_strip (cell_str x))"

definition is_placeholder :: "string \<Rightarrow> bool" where
  "is_placeholder s = (s \<in> set [[], ''n/a'', ''na'', ''-''])"

definition cleaned :: "string \<Rightarrow> string" where
  "cleaned s = remove_char (CHR '' '') (remove_char (CHR '','') (remove_char (CHR 0x27) s))"

text \<open>
  \<^verbatim>\<open>parse_int\<close>, the same function in both converters. The \<^verbatim>\<open>try\<close> covers
  \<^verbatim>\<open>int(float(s))\<close> only; \<^verbatim>\<open>int(digits)\<close> in the handler is outside of it.
\<close>

definition parse_int :: "cell \<Rightarrow> py_error + int option" where
  "parse_int x =
     (if isna x then Inr None
      else if is_placeholder (cell_text x) then Inr None
      else let s = cleaned (cell_text x)
           in case int_float s of
                Inr n \<Rightarrow> Inr (Some n)
              | Inl e \<Rightarrow>
                  (let digits = concat (findall_digits s)
                   in if digits \<noteq> [] then
                        (case py_int digits of Inl e' \<Rightarrow> Inl e' | Inr n \<Rightarrow> Inr (Some n))
                      else Inr None))"

text \<open>
  The fallback in the words of the specification: the integer formed from the longest
  run of digits (the first one among runs of the same length), if there is a run.
\<close>

fun longest :: "string list \<Rightarrow> string" where
  "longest [] = []"
| "longest (r # rs) = (if length (longest rs) \<le> length r then r else longest rs)"

definition spec_longest_run_value :: "string \<Rightarrow> int option" where
  "spec_longest_run_value s =
     (case findall_digits s of [] \<Rightarrow> None | r # rs \<Rightarrow> Some (digits_value (longest (r # rs))))"

lemma filter_takeWhile_dropWhile:
  "filter P xs = takeWhile P xs @ filter P (dropWhile P xs)"
proof -
  have "filter P xs = filter P (takeWhile P xs @ dropWhile P xs)" by simp
  also have "\<dots> = filter P (takeWhile P xs) @ filter P (dropWhile P xs)"
    by (rule filter_append)
  also have "filter P (takeWhile P xs) = takeWhile P xs"
    by (rule filter_True) (auto dest: set_takeWhileD)
  finally show ?thesis .
qed

lemma concat_findall_digits: "concat (findall_digits s) = filter is_digit s"
proof (induction s rule: findall_digits.induct)
  case 1
  show ?case by simp
next
  case (2 c cs)
  show ?case
  proof (cases "is_digit c")
    case True
    have "concat (findall_digits (c # cs)) =
            c # takeWhile is_digit cs @ concat (findall_digits (dropWhile is_digit cs))"
      using True by simp
    also have "\<dots> = c # takeWhile is_digit cs @ filter is_digit (dropWhile is_digit cs)"
      using 2(1) [OF True] by simp
    also have "\<dots> = c # filter is_digit cs"
      using filter_takeWhile_dropWhile [of is_digit cs] by simp
    also have "\<dots> = filter is_digit (c # cs)" using True by simp
    finally show ?thesis .
  next
    case False
    then show ?thesis using 2(2) by simp
  qed
qed

lemma digit_not_special:
  assumes "is_digit c"
  shows "\<not> is_space c" and "c \<noteq> CHR ''-''" and "c \<noteq> CHR ''+''" and "c \<noteq> CHR ''_''"
  using assms by (auto simp: is_digit_def digits10_def is_space_def)

lemma dropWhile_hd_id: "xs \<noteq> [] \<Longrightarrow> \<not> P (hd xs) \<Longrightarrow> dropWhile P xs = xs"
  by (cases xs) simp_all

lemma strip_chars_id:
  assumes "s \<noteq> []" and "\<not> P (hd s)" and "\<not> P (last s)"
  shows "strip_chars P s = s"
proof -
  have "dropWhile P s = s" using assms(1,2) by (rule dropWhile_hd_id)
  moreover have "dropWhile P (rev s) = rev s"
    using assms(1,3) by (intro dropWhile_hd_id) (simp_all add: hd_rev)
  ultimately show ?thesis by (simp add: strip_chars_def)
qed

lemma digitpart_digits: "ds \<noteq> [] \<Longrightarrow> list_all is_digit ds \<Longrightarrow> digitpart ds"
  by (induction ds rule: digitpart.induct) (auto dest: digit_not_special(4))

lemma py_int_digits:
  assumes "ds \<noteq> []" and "list_all is_digit ds"
  shows "py_int ds = Inr (digits_value ds)"
proof -
  from assms have "is_digit (hd ds)" and "is_digit (last ds)"
    by (auto simp: list_all_iff)
  then have strip: "str_strip ds = ds"
    using assms(1) by (simp add: str_strip_def strip_chars_id digit_not_special(1))
  from assms obtain c cs where ds: "ds = c # cs" and c: "is_digit c"
    by (cases ds) auto
  then have "split_sign ds = (1, ds)"
    by (simp add: split_sign_def digit_not_special(2,3))
  then show ?thesis
    using digitpart_digits [OF assms] by (simp add: py_int_def strip)
qed

lemma parse_int_total: "\<exists>r. parse_int x = Inr r"
proof -
  let ?s = "cleaned (cell_text x)"
  have "list_all is_digit (filter is_digit ?s)" by (simp add: list_all_iff)
  then have "filter is_digit ?s \<noteq> [] \<Longrightarrow>
      py_int (filter is_digit ?s) = Inr (digits_value (filter is_digit ?s))"
    by (rule py_int_digits [rotated])
  then show ?thesis
    by (auto simp: parse_int_def Let_def concat_findall_digits split: sum.splits)
qed

lemma digits_value_filter: "digits_value (filter is_digit s) = digits_value s"
  by (simp add: digits_value_def)

lemma parse_int_fallback:
  assumes "\<not> isna x" and "\<not> is_placeholder (cell_text x)"
      and "int_float (cleaned (cell_text x)) = Inl e"
  shows "parse_int x =
           Inr (if filter is_digit (cleaned (cell_text x)) = [] then None
                else Some (digits_value (cleaned (cell_text x))))"
proof -
  let ?s = "cleaned (cell_text x)"
  have "list_all is_digit (filter is_digit ?s)" by (simp add: list_all_iff)
  then have "filter is_digit ?s \<noteq> [] \<Longrightarrow>
      py_int (filter is_digit ?s) = Inr (digits_value ?s)"
    using py_int_digits [of "filter is_digit ?s"] by (simp add: digits_value_filter)
  then show ?thesis
    using assms by (auto simp: parse_int_def Let_def concat_findall_digits)
qed

lemma cleaned_chars: "set (cleaned s) \<inter> {CHR '','', CHR 0x27, CHR '' ''} = {}"
  by (auto simp: cleaned_def remove_char_def)

lemma parse_int_examples:
  "parse_int (CStr ''1,200'') = Inr (Some 1200)"
  "parse_int (CStr (''12'' @ [CHR 0x27] @ ''500'')) = Inr (Some 12500)"
  "parse_int (CStr ''abc'') = Inr None"
  "parse_int (CStr []) = Inr None"
  by code_simp+

text \<open>
  Claim C2 as stated fails in the fallback: for the cell \<^verbatim>\<open>"1200 per 20"\<close> the numeric
  coercion fails, the longest run of digits is \<^verbatim>\<open>1200\<close>, and \<^verbatim>\<open>parse_int\<close> returns 120020,
  the number formed by all digits of the cell.
\<close>

theorem parse_int_longest_run_counterexample:
  "int_float (cleaned (cell_text (CStr ''1200 per 20''))) = Inl ValueError \<and>
   spec_longest_run_value ''1200 per 20'' = Some 1200 \<and>
   parse_int (CStr ''1200 per 20'') = Inr (Some 120020)"
  by code_simp

text \<open>
  Claim C2, amended. \<^verbatim>\<open>parse_int\<close> never raises. It returns \<^verbatim>\<open>None\<close> for a missing cell and
  for the placeholders (empty, \<^verbatim>\<open>n/a\<close>, \<^verbatim>\<open>na\<close>, \<^verbatim>\<open>-\<close>, in any case and with surrounding
  whitespace). Otherwise it deletes apostrophes, commas and spaces and returns
  \<^verbatim>\<open>int(float(s))\<close> when that succeeds; when it fails, the result is the integer formed by
  all digits of the text in order (the concatenation of every run of digits), and
  \<^verbatim>\<open>None\<close> when the text has no digit. In particular \<^verbatim>\<open>parse_int("1,200") = 1200\<close>,
  \<^verbatim>\<open>parse_int("12'500") = 12500\<close>, \<^verbatim>\<open>parse_int("abc") is None\<close> and \<^verbatim>\<open>parse_int("") is None\<close>
  (the apostrophe is the character \<open>0x27\<close>).
\<close>

theorem parse_int_behaviour:
  "(\<exists>r. parse_int x = Inr r) \<and>
   (isna x \<or> is_placeholder (cell_text x) \<longrightarrow> parse_int x = Inr None) \<and>
   set (cleaned (cell_text x)) \<inter> {CHR '','', CHR 0x27, CHR '' ''} = {} \<and>
   (\<not> isna x \<and> \<not> is_placeholder (cell_text x) \<and> int_float (cleaned (cell_text x)) = Inr n
      \<longrightarrow> parse_int x = Inr (Some n)) \<and>
   (\<not> isna x \<and> \<not> is_placeholder (cell_text x) \<and> int_float (cleaned (cell_text x)) = Inl e
      \<longrightarrow> parse_int x =
            Inr (if filter is_digit (cleaned (cell_text x)) = [] then None
                 else Some (digits_value (cleaned (cell_text x))))) \<and>
   parse_int (CStr ''1,200'') = Inr (Some 1200) \<and>
   parse_int (CStr (''12'' @ [CHR 0x27] @ ''500'')) = Inr (Some 12500) \<and>
   parse_int (CStr ''abc'') = Inr None \<and>
   parse_int (CStr []) = Inr None"
proof -
  have a: "\<exists>r. parse_int x = Inr r" by (rule parse_int_total)
  have b: "isna x \<or> is_placeholder (cell_text x) \<longrightarrow> parse_int x = Inr None"
    by (auto simp: parse_int_def)
  have c: "set (cleaned (cell_text x)) \<inter> {CHR '','', CHR 0x27, CHR '' ''} = {}"
    by (rule cleaned_chars)
  have d: "\<not> isna x \<and> \<not> is_placeholder (cell_text x) \<and> int_float (cleaned (cell_text x)) = Inr n
      \<longrightarrow> parse_int x = Inr (Some n)"
    by (simp add: parse_int_def)
  have e: "\<not> isna x \<and> \<not> is_placeholder (cell_text x) \<and> int_float (cleaned (cell_text x)) = Inl e
      \<longrightarrow> parse_int x =
            Inr (if filter is_digit (cleaned (cell_text x)) = [] then None
                 else Some (digits_value (cleaned (cell_text x))))"
  proof
    assume h: "\<not> isna x \<and> \<not> is_placeholder (cell_text x) \<and> int_float (cleaned (cell_text x)) = Inl e"
    show "parse_int x =
            Inr (if filter is_digit (cleaned (cell_text x)) = [] then None
                 else Some (digits_value (cleaned (cell_text x))))"
      by (rule parse_int_fallback [OF h [THEN conjunct1] h [THEN conjunct2, THEN conjunct1]
            h [THEN conjunct2, THEN conjunct2]])
  qed
  show ?thesis
    by (rule conjI [OF a conjI [OF b conjI [OF c conjI [OF d conjI [OF e
          conjI [OF parse_int_examples(1) conjI [OF parse_int_examples(2)
          conjI [OF parse_int_examples(3) parse_int_examples(4)]]]]]]]])
qed

theorem parse_int_behaviour_witness:
  "parse_int (CStr ''1200 per 20'') = Inr (Some 120020) \<and>
   parse_int (CStr '' 3.7 '') = Inr (Some 3) \<and>
   parse_int (CStr ''N/A'') = Inr None"
proof -
  have f: "\<not> isna (CStr ''1200 per 20'') \<and> \<not> is_placeholder (cell_text (CStr ''1200 per 20'')) \<and>
      int_float (cleaned (cell_text (CStr ''1200 per 20''))) = Inl ValueError"
    by code_simp
  have fv: "(if filter is_digit (cleaned (cell_text (CStr ''1200 per 20''))) = [] then None
                 else Some (digits_value (cleaned (cell_text (CStr ''1200 per 20''))))) = Some 120020"
    by code_simp
  have g: "\<not> isna (CStr '' 3.7 '') \<and> \<not> is_placeholder (cell_text (CStr '' 3.7 '')) \<and>
      int_float (cleaned (cell_text (CStr '' 3.7 ''))) = Inr 3"
    by code_simp
  have h: "isna (CStr ''N/A'') \<or> is_placeholder (cell_text (CStr ''N/A''))"
    by code_simp
  have "parse_int (CStr ''1200 per 20'') = Inr (Some 120020)"
    using parse_int_behaviour [of "CStr ''1200 per 20''" 0 ValueError,
        THEN conjunct2, THEN conjunct2, THEN conjunct2, THEN conjunct2, THEN conjunct1, THEN mp, OF f]
    unfolding fv .
  moreover have "parse_int (CStr '' 3.7 '') = Inr (Some 3)"
    by (rule parse_int_behaviour [of "CStr '' 3.7 ''" 3 ValueError,
        THEN conjunct2, THEN conjunct2, THEN conjunct2, THEN conjunct1, THEN mp, OF g])
  moreover have "parse_int (CStr ''N/A'') = Inr None"
    by (rule parse_int_behaviour [of "CStr ''N/A''" 0 ValueError,
        THEN conjunct2, THEN conjunct1, THEN mp, OF h])
  ultimately show ?thesis by (intro conjI)
qed

section \<open>Header normalizer (excel\_to\_products.py)\<close>

subsection \<open>Regular expressions\<close>

text \<open>
  The patterns of the alias table use literals, \<^verbatim>\<open>\s\<close>, one character class, grouping,
  alternation, \<^verbatim>\<open>?\<close> and \<^verbatim>\<open>*\<close>, and the anchors \<^verbatim>\<open>^\<close> and \<^verbatim>\<open>$\<close> at the ends only. A pattern
  is its body together with the two anchors; the body is matched by derivatives.
  A symbol is a predicate on characters.
\<close>

datatype rx =
    Nul
  | Eps
  | Sym "char \<Rightarrow> bool"
  | Seq rx rx
  | Alt rx rx
  | Star rx

fun nullable :: "rx \<Rightarrow> bool" where
  "nullable Nul = False"
| "nullable Eps = True"
| "nullable (Sym P) = False"
| "nullable (Seq r s) = (nullable r \<and> nullable s)"
| "nullable (Alt r s) = (nullable r \<or> nullable s)"
| "nullable (Star r) = True"

fun deriv :: "char \<Rightarrow> rx \<Rightarrow> rx" where
  "deriv c Nul = Nul"
| "deriv c Eps = Nul"
| "deriv c (Sym P) = (if P c then Eps else Nul)"
| "deriv c (Seq r s) =
     (if nullable r then Alt (Seq (deriv c r) s) (deriv c s) else Seq (deriv c r) s)"
| "deriv c (Alt r s) = Alt (deriv c r) (deriv c s)"
| "deriv c (Star r) = Seq (deriv c r) (Star r)"

fun matches :: "rx \<Rightarrow> string \<Rightarrow> bool" where
  "matches r [] = nullable r"
| "matches r (c # cs) = matches (deriv c r) cs"

text \<open>
  Literals compare without regard to case (\<^verbatim>\<open>re.IGNORECASE\<close>).
\<close>

definition chr :: "char \<Rightarrow> rx" where
  "chr c = Sym (\<lambda>d. lower_char d = lower_char c)"

definition lit :: "string \<Rightarrow> rx" where
  "lit s = foldr (\<lambda>c r. Seq (chr c) r) s Eps"

definition opt :: "rx \<Rightarrow> rx" where
  "opt r = Alt r Eps"

definition ws :: rx where
  "ws = Star (Sym is_space)"

definition any_text :: rx where
  "any_text = Star (Sym (\<lambda>c. True))"

fun seqs :: "rx list \<Rightarrow> rx" where
  "seqs [] = Eps"
| "seqs [r] = r"
| "seqs (r # rs) = Seq r (seqs rs)"

datatype pattern = Pattern bool rx bool

text \<open>
  \<^verbatim>\<open>re.search(p, s)\<close>: some part of \<open>s\<close> matches the body; with \<^verbatim>\<open>^\<close> the part starts at
  the beginning, with \<^verbatim>\<open>$\<close> it ends at the end (a normalized header has no newline).
\<close>

fun re_search :: "pattern \<Rightarrow> string \<Rightarrow> bool" where
  "re_search (Pattern from_start r to_end) s =
     matches (Seq (if from_start then Eps else any_text)
                  (Seq r (if to_end then Eps else any_text))) s"

subsection \<open>What the matcher decides\<close>

text \<open>
  The words of a regular expression, and the agreement of the derivative matcher with
  them: \<open>re_search\<close> holds exactly when some part of the text is a word of the body, at
  the beginning or the end of the text where the pattern is anchored.
\<close>

inductive_set repeat :: "string set \<Rightarrow> string set" for L :: "string set" where
  repeat_none: "[] \<in> repeat L"
| repeat_more: "u \<in> L \<Longrightarrow> v \<in> repeat L \<Longrightarrow> u @ v \<in> repeat L"

fun words :: "rx \<Rightarrow> string set" where
  "words Nul = {}"
| "words Eps = {[]}"
| "words (Sym P) = {[c] | c. P c}"
| "words (Seq r s) = {u @ v | u v. u \<in> words r \<and> v \<in> words s}"
| "words (Alt r s) = words r \<union> words s"
| "words (Star r) = repeat (words r)"

lemma nullable_words: "nullable r \<longleftrightarrow> [] \<in> words r"
  by (induction r) (auto intro: repeat_none)

lemma repeat_Cons_elim:
  assumes "x \<in> repeat L" and "x = c # w"
  shows "\<exists>u v. w = u @ v \<and> c # u \<in> L \<and> v \<in> repeat L"
  using assms
proof (induction arbitrary: w rule: repeat.induct)
  case repeat_none
  then show ?case by simp
next
  case (repeat_more u v)
  show ?case
  proof (cases u)
    case Nil
    with repeat_more show ?thesis by simp
  next
    case (Cons d u')
    with repeat_more.prems have "d = c" and "w = u' @ v" by simp_all
    with repeat_more.hyps Cons show ?thesis by blast
  qed
qed

lemma repeat_Cons_iff:
  "c # w \<in> repeat L \<longleftrightarrow> (\<exists>u v. w = u @ v \<and> c # u \<in> L \<and> v \<in> repeat L)"
proof
  assume "c # w \<in> repeat L"
  then show "\<exists>u v. w = u @ v \<and> c # u \<in> L \<and> v \<in> repeat L"
    by (rule repeat_Cons_elim) simp
next
  assume "\<exists>u v. w = u @ v \<and> c # u \<in> L \<and> v \<in> repeat L"
  then obtain u v where "w = u @ v" and "c # u \<in> L" and "v \<in> repeat L" by blast
  then show "c # w \<in> repeat L" using repeat_more [of "c # u" L v] by simp
qed

lemma words_deriv: "w \<in> words (deriv c r) \<longleftrightarrow> c # w \<in> words r"
proof (induction r arbitrary: w)
  case (Seq r s)
  have "c # w \<in> words (Seq r s) \<longleftrightarrow>
      ([] \<in> words r \<and> c # w \<in> words s) \<or>
      (\<exists>u v. w = u @ v \<and> c # u \<in> words r \<and> v \<in> words s)"
    by (auto simp: Cons_eq_append_conv)
  then show ?case using Seq by (auto simp: nullable_words)
next
  case (Star r)
  then show ?case by (auto simp: repeat_Cons_iff)
qed auto

lemma matches_words: "matches r w \<longleftrightarrow> w \<in> words r"
  by (induction w arbitrary: r) (simp_all add: nullable_words words_deriv)

lemma words_any_text: "w \<in> words any_text"
proof (induction w)
  case Nil
  show ?case by (simp add: any_text_def repeat_none)
next
  case (Cons c w)
  then show ?case
    using repeat_more [of "[c]" "{[d] | d. True}" w] by (simp add: any_text_def)
qed

lemma re_search_words:
  "re_search (Pattern from_start r to_end) s \<longleftrightarrow>
     (\<exists>before part after. s = before @ part @ after \<and> part \<in> words r \<and>
        (from_start \<longrightarrow> before = []) \<and> (to_end \<longrightarrow> after = []))"
  by (cases from_start; cases to_end) (auto simp: matches_words words_any_text)

subsection \<open>The alias table\<close>

definition anchored :: "rx list \<Rightarrow> pattern" where
  "anchored rs = Pattern True (seqs rs) True"

definition ALIASES :: "(string \<times> pattern list) list" where
  "ALIASES =
     [(''reference'',
         [anchored [lit ''id.1''],
          anchored [lit ''id''],
          anchored [lit ''ref'', opt (lit ''erence''), opt (Seq ws (lit ''string''))],
          anchored [lit ''product'', ws, lit ''id'']]),
      (''category_name'',
         [anchored [lit ''product'', opt (lit ''s''), opt (chr (CHR 0x27)), ws, lit ''category''],
          anchored [lit ''category'', opt (Seq ws (lit ''name''))]]),
      (''product_name'',
         [anchored [lit ''product'', opt (lit ''s'')],
          anchored [lit ''product'', ws, lit ''name''],
          anchored [lit ''item'']]),
      (''size'',
         [anchored [lit ''size'', opt (lit ''s'')],
          anchored [lit ''variant''],
          anchored [lit ''model'']]),
      (''picture'',
         [anchored [lit ''picture''],
          anchored [lit ''image''],
          anchored [lit ''photo'']]),
      (''ce'', [anchored [lit ''ce'']]),
      (''ce_mdr'',
         [anchored [lit ''ce'',
                    Star (Sym (\<lambda>c. c = CHR ''_'' \<or> is_space c \<or> c = CHR ''-'')),
                    lit ''mdr'']]),
      (''fda'', [anchored [lit ''fda'']]),
      (''iso'',
         [anchored [lit ''iso'', ws, lit ''st'', ws, lit ''/'', ws, lit ''ard''],
          Pattern True (lit ''iso'') False,
          anchored [lit ''standard'', opt (lit ''s'')]]),
      (''pcs_inner'',
         [anchored [lit ''pcs'', opt (lit ''/''), ws, lit ''inner'', ws, lit ''pack'',
                    opt (lit ''aging'')],
          anchored [lit ''inner'', ws, Alt (lit ''pcs'') (lit ''qty'')]]),
      (''pcs_outer'',
         [anchored [lit ''pcs'', opt (lit ''/''), ws, lit ''outer'', ws, lit ''pack'',
                    opt (lit ''aging'')],
          anchored [lit ''outer'', ws, Alt (lit ''pcs'') (lit ''qty'')],
          anchored [lit ''carton'', ws, lit ''qty'']]),
      (''loading_20gp'',
         [anchored [lit ''loading'', ws, lit ''capacity''],
          Pattern False (seqs [lit ''20'', ws, lit ''gp'']) False,
          anchored [lit ''20gp'']]),
      (''loading_40hc'',
         [anchored [lit ''unnamed:'', ws, lit ''16''],
          Pattern False (seqs [lit ''40'', ws, lit ''hc'']) False,
          anchored [lit ''40hc'']]),
      (''carton_size'',
         [anchored [lit ''carton'', ws, lit ''size''],
          anchored [lit ''ctn'', ws, lit ''size''],
          anchored [lit ''box'', ws, lit ''size'']])]"

text \<open>
  \<^verbatim>\<open>normalize_header\<close>: every run of whitespace becomes one space, then the text is
  stripped and lower-cased.
\<close>

function collapse_ws :: "string \<Rightarrow> string" where
  "collapse_ws [] = []"
| "collapse_ws (c # cs) =
     (if is_space c then CHR '' '' # collapse_ws (dropWhile is_space cs)
      else c # collapse_ws cs)"
  by pat_completeness auto
termination
  by (relation "measure length") (auto simp: less_Suc_eq_le length_dropWhile_le)

definition normalize_header :: "string \<Rightarrow> string" where
  "normalize_header h = str_lower (str_strip (collapse_ws h))"

text \<open>
  \<^verbatim>\<open>match_header\<close>: the two nested loops return at the first pattern that matches, going
  through the table in its order.
\<close>

fun first_canon :: "(string \<times> pattern list) list \<Rightarrow> string \<Rightarrow> string option" where
  "first_canon [] norm = None"
| "first_canon ((canon, pats) # rest) norm =
     (if list_ex (\<lambda>p. re_search p norm) pats then Some canon else first_canon rest norm)"

definition match_header :: "string \<Rightarrow> string option" where
  "match_header h = first_canon ALIASES (normalize_header h)"

text \<open>
  The column loop of \<^verbatim>\<open>main\<close> that builds \<^verbatim>\<open>rename\<close>, a dictionary from raw header to
  canonical name. \<^verbatim>\<open>rename[c] = canon\<close> is \<open>alist_set\<close>.
\<close>

fun alist_set :: "('k \<times> 'v) list \<Rightarrow> 'k \<Rightarrow> 'v \<Rightarrow> ('k \<times> 'v) list" where
  "alist_set [] k v = [(k, v)]"
| "alist_set ((k', v') # d) k v = (if k' = k then (k, v) # d else (k', v') # alist_set d k v)"

definition rename_step :: "str_map \<Rightarrow> string \<Rightarrow> str_map" where
  "rename_step rename c =
     (case match_header c of
        None \<Rightarrow> rename
      | Some canon \<Rightarrow>
          (case filter (\<lambda>(k, v). v = canon) rename of
             [] \<Rightarrow> alist_set rename c canon
           | (existing_col, v) # others \<Rightarrow>
               if length existing_col < length c \<or> c = ''ID.1''
               then alist_set (filter (\<lambda>(k, v). v \<noteq> canon) rename) c canon
               else rename))"

definition build_rename :: "string list \<Rightarrow> str_map" where
  "build_rename columns = foldl rename_step [] columns"

lemma first_canon_None:
  "first_canon tbl norm = None \<longleftrightarrow>
     (\<forall>(c, ps) \<in> set tbl. \<forall>p \<in> set ps. \<not> re_search p norm)"
proof (induction tbl)
  case Nil
  show ?case by simp
next
  case (Cons e tbl)
  obtain c ps where e: "e = (c, ps)" by (cases e)
  show ?case
  proof (cases "list_ex (\<lambda>p. re_search p norm) ps")
    case True
    then show ?thesis unfolding e by (simp add: list_ex_iff)
  next
    case False
    then have "\<forall>p \<in> set ps. \<not> re_search p norm" by (simp add: list_ex_iff)
    then show ?thesis unfolding e using False Cons.IH by simp
  qed
qed

lemma first_canon_append:
  assumes "\<forall>(c, ps) \<in> set pre. \<forall>p \<in> set ps. \<not> re_search p norm"
  shows "first_canon (pre @ rest) norm = first_canon rest norm"
  using assms
proof (induction pre)
  case Nil
  show ?case by simp
next
  case (Cons e pre)
  obtain c ps where e: "e = (c, ps)" by (cases e)
  from Cons.prems have miss: "\<forall>p \<in> set ps. \<not> re_search p norm"
    and rest: "\<forall>(c, ps) \<in> set pre. \<forall>p \<in> set ps. \<not> re_search p norm"
    unfolding e by simp_all
  from miss have "\<not> list_ex (\<lambda>p. re_search p norm) ps" by (simp add: list_ex_iff)
  then show ?case unfolding e using Cons.IH [OF rest] by simp
qed

lemma first_canon_Some_intro:
  assumes "\<forall>(c, ps) \<in> set pre. \<forall>p \<in> set ps. \<not> re_search p norm"
      and "\<exists>p \<in> set pats. re_search p norm"
  shows "first_canon (pre @ (canon, pats) # post) norm = Some canon"
proof -
  from assms(2) have "list_ex (\<lambda>p. re_search p norm) pats" by (simp add: list_ex_iff)
  then have "first_canon ((canon, pats) # post) norm = Some canon" by simp
  then show ?thesis unfolding first_canon_append [OF assms(1)] .
qed

lemma first_canon_Some_elim:
  assumes "first_canon tbl norm = Some canon"
  shows "\<exists>pre pats post. tbl = pre @ (canon, pats) # post \<and>
           (\<exists>p \<in> set pats. re_search p norm) \<and>
           (\<forall>(c, ps) \<in> set pre. \<forall>p \<in> set ps. \<not> re_search p norm)"
  using assms
proof (induction tbl)
  case Nil
  then show ?case by simp
next
  case (Cons e tbl)
  obtain c pats where e: "e = (c, pats)" by (cases e)
  show ?case
  proof (cases "list_ex (\<lambda>p. re_search p norm) pats")
    case True
    with Cons.prems have "c = canon" unfolding e by simp
    moreover from True have "\<exists>p \<in> set pats. re_search p norm" by (simp add: list_ex_iff)
    ultimately have "e # tbl = [] @ (canon, pats) # tbl \<and>
           (\<exists>p \<in> set pats. re_search p norm) \<and>
           (\<forall>(c, ps) \<in> set []. \<forall>p \<in> set ps. \<not> re_search p norm)"
      unfolding e by simp
    then show ?thesis by (intro exI)
  next
    case False
    with Cons.prems have "first_canon tbl norm = Some canon" unfolding e by simp
    from Cons.IH [OF this] obtain pre ps post
      where t: "tbl = pre @ (canon, ps) # post" and h: "\<exists>p \<in> set ps. re_search p norm"
        and m: "\<forall>(c, ps) \<in> set pre. \<forall>p \<in> set ps. \<not> re_search p norm"
      by (elim exE conjE)
    from False have "\<forall>p \<in> set pats. \<not> re_search p norm" by (simp add: list_ex_iff)
    with m have "\<forall>(c, ps) \<in> set ((c, pats) # pre). \<forall>p \<in> set ps. \<not> re_search p norm"
      by simp
    with t h have "e # tbl = ((c, pats) # pre) @ (canon, ps) # post \<and>
           (\<exists>p \<in> set ps. re_search p norm) \<and>
           (\<forall>(c, ps) \<in> set ((c, pats) # pre). \<forall>p \<in> set ps. \<not> re_search p norm)"
      unfolding e by simp
    then show ?thesis by (intro exI)
  qed
qed

lemma build_rename_pair:
  assumes "match_header a = Some canon" and "match_header b = Some canon"
  shows "build_rename [a, b] = [(if length a < length b \<or> b = ''ID.1'' then b else a, canon)]"
proof -
  have first: "rename_step [] a = [(a, canon)]"
    using assms(1) by (simp add: rename_step_def)
  have "rename_step [(a, canon)] b =
      [(if length a < length b \<or> b = ''ID.1'' then b else a, canon)]"
    using assms(2) by (simp add: rename_step_def)
  then show ?thesis by (simp add: build_rename_def first)
qed

text \<open>
  Claim C7 as stated fails when the two competing headers have the same length and the
  later one is not \<^verbatim>\<open>ID.1\<close>: \<^verbatim>\<open>Item\<close> and \<^verbatim>\<open>ITEM\<close> both map to \<^verbatim>\<open>product_name\<close>, and the
  header that is retained, \<^verbatim>\<open>Item\<close>, is neither the longer one nor \<^verbatim>\<open>ID.1\<close>.
\<close>

theorem build_rename_tie_counterexample:
  "match_header ''Item'' = Some ''product_name'' \<and>
   match_header ''ITEM'' = Some ''product_name'' \<and>
   build_rename [''Item'', ''ITEM''] = [(''Item'', ''product_name'')] \<and>
   length ''Item'' = length ''ITEM'' \<and> ''Item'' \<noteq> ''ID.1''"
  by code_simp

text \<open>
  Claim C7, amended. \<^verbatim>\<open>match_header\<close> is a function of the raw header alone: it returns
  the first canonical name, in the order of the alias table, one of whose patterns
  matches the normalized header, and no match exactly when no pattern of the table
  matches. When two raw headers compete for the same canonical name, the later one
  replaces the earlier one exactly when it is strictly longer or is \<^verbatim>\<open>ID.1\<close>; otherwise
  (in particular for equal lengths) the earlier one is retained.
\<close>

theorem match_header_first_match:
  "(match_header h = None \<longleftrightarrow>
      (\<forall>(c, ps) \<in> set ALIASES. \<forall>p \<in> set ps. \<not> re_search p (normalize_header h))) \<and>
   (match_header h = Some canon \<longleftrightarrow>
      (\<exists>pre pats post. ALIASES = pre @ (canon, pats) # post \<and>
         (\<exists>p \<in> set pats. re_search p (normalize_header h)) \<and>
         (\<forall>(c, ps) \<in> set pre. \<forall>p \<in> set ps. \<not> re_search p (normalize_header h)))) \<and>
   (match_header a = Some k \<and> match_header b = Some k \<longrightarrow>
      build_rename [a, b] = [(if length a < length b \<or> b = ''ID.1'' then b else a, k)])"
proof -
  have none: "match_header h = None \<longleftrightarrow>
      (\<forall>(c, ps) \<in> set ALIASES. \<forall>p \<in> set ps. \<not> re_search p (normalize_header h))"
    unfolding match_header_def by (rule first_canon_None)
  have some: "match_header h = Some canon \<longleftrightarrow>
      (\<exists>pre pats post. ALIASES = pre @ (canon, pats) # post \<and>
         (\<exists>p \<in> set pats. re_search p (normalize_header h)) \<and>
         (\<forall>(c, ps) \<in> set pre. \<forall>p \<in> set ps. \<not> re_search p (normalize_header h)))"
  proof
    assume "match_header h = Some canon"
    then show "\<exists>pre pats post. ALIASES = pre @ (canon, pats) # post \<and>
         (\<exists>p \<in> set pats. re_search p (normalize_header h)) \<and>
         (\<forall>(c, ps) \<in> set pre. \<forall>p \<in> set ps. \<not> re_search p (normalize_header h))"
      unfolding match_header_def by (rule first_canon_Some_elim)
  next
    assume "\<exists>pre pats post. ALIASES = pre @ (canon, pats) # post \<and>
         (\<exists>p \<in> set pats. re_search p (normalize_header h)) \<and>
         (\<forall>(c, ps) \<in> set pre. \<forall>p \<in> set ps. \<not> re_search p (normalize_header h))"
    then obtain pre pats post where tbl: "ALIASES = pre @ (canon, pats) # post"
      and hit: "\<exists>p \<in> set pats. re_search p (normalize_header h)"
      and miss: "\<forall>(c, ps) \<in> set pre. \<forall>p \<in> set ps. \<not> re_search p (normalize_header h)"
      by blast
    show "match_header h = Some canon"
      unfolding match_header_def tbl by (rule first_canon_Some_intro [OF miss hit])
  qed
  have pair: "match_header a = Some k \<and> match_header b = Some k \<longrightarrow>
      build_rename [a, b] = [(if length a < length b \<or> b = ''ID.1'' then b else a, k)]"
    using build_rename_pair [of a k b] by blast
  show ?thesis by (rule conjI [OF none conjI [OF some pair]])
qed

theorem match_header_first_match_witness:
  "build_rename [''ID'', ''ID.1''] = [(''ID.1'', ''reference'')] \<and>
   build_rename [''Reference String'', ''Ref''] = [(''Reference String'', ''reference'')]"
proof -
  have m: "match_header ''ID'' = Some ''reference'' \<and> match_header ''ID.1'' = Some ''reference''"
    "match_header ''Reference String'' = Some ''reference'' \<and> match_header ''Ref'' = Some ''reference''"
    by code_simp+
  have "build_rename [''ID'', ''ID.1''] =
      [(if length ''ID'' < length ''ID.1'' \<or> ''ID.1'' = ''ID.1'' then ''ID.1'' else ''ID'', ''reference'')]"
    by (rule match_header_first_match [THEN conjunct2, THEN conjunct2, THEN mp, OF m(1)])
  moreover have "build_rename [''Reference String'', ''Ref''] =
      [(if length ''Reference String'' < length ''Ref'' \<or> ''Ref'' = ''ID.1'' then ''Ref''
        else ''Reference String'', ''reference'')]"
    by (rule match_header_first_match [THEN conjunct2, THEN conjunct2, THEN mp, OF m(2)])
  ultimately show ?thesis by simp
qed

section \<open>Row grouper (excel\_to\_products.py)\<close>

text \<open>
  The data frame after the headers are renamed: the names of its columns, and its rows
  in file order. A row gives a cell for every column name; \<^verbatim>\<open>r.get(col)\<close> is \<^verbatim>\<open>None\<close> for a
  name that is not a column of the frame.
\<close>

record frame =
  df_columns :: "string list"
  df_rows :: "(string \<Rightarrow> cell) list"

definition row_get :: "string list \<Rightarrow> (string \<Rightarrow> cell) \<Rightarrow> string \<Rightarrow> cell option" where
  "row_get cols r col = (if col \<in> set cols then Some (r col) else None)"

text \<open>\<^verbatim>\<open>v or ""\<close>: the value when it is truthy (\<^verbatim>\<open>NaN\<close> is), the empty string otherwise.\<close>

definition or_empty :: "cell option \<Rightarrow> cell" where
  "or_empty v = (case v of None \<Rightarrow> CStr [] | Some c \<Rightarrow> if cell_truthy c then c else CStr [])"

text \<open>\<^verbatim>\<open>pd.isna\<close> holds for \<^verbatim>\<open>None\<close> as for \<^verbatim>\<open>NaN\<close>.\<close>

definition get_cell :: "cell option \<Rightarrow> cell" where
  "get_cell v = (case v of None \<Rightarrow> CNaN | Some c \<Rightarrow> c)"

text \<open>\<^verbatim>\<open>x.strip()\<close> exists for strings only.\<close>

definition strip_method :: "cell \<Rightarrow> py_error + string" where
  "strip_method x = (case x of CStr s \<Rightarrow> Inr (str_strip s) | _ \<Rightarrow> Inl AttributeError)"

definition yesno_to_bool :: "cell \<Rightarrow> bool" where
  "yesno_to_bool x =
     (if isna x then False
      else str_lower (str_strip (cell_str x)) \<in> set [''yes'', ''y'', ''true'', ''1''])"

text \<open>\<^verbatim>\<open>re.split(r"[\/,;]", s)\<close>: split at every character of the class.\<close>

fun split_where :: "(char \<Rightarrow> bool) \<Rightarrow> string \<Rightarrow> string list" where
  "split_where P [] = [[]]"
| "split_where P (c # cs) =
     (if P c then [] # split_where P cs
      else (case split_where P cs of
              w # others \<Rightarrow> (c # w) # others
            | [] \<Rightarrow> [[c]]))"

definition parse_iso_list :: "cell \<Rightarrow> string list" where
  "parse_iso_list x =
     (if isna x then []
      else let s = str_strip (cell_str x)
           in if s = [] \<or> str_lower s \<in> set [''n/a'', ''na'', ''-''] then []
              else map str_strip
                     (filter (\<lambda>p. str_strip p \<noteq> [])
                        (split_where (\<lambda>c. c \<in> set ''/,;'') s)))"

record variation =
  var_size :: string
  var_picture :: bool
  var_ce :: bool
  var_ce_mdr :: bool
  var_fda :: bool
  var_iso :: "string list"
  var_pcs_inner :: "int option"
  var_pcs_outer :: "int option"
  var_loading_20GP :: "int option"
  var_loading_40HC :: "int option"
  var_carton_size :: string

text \<open>
  \<^verbatim>\<open>build_variation\<close> of excel\_to\_products.py: \<^verbatim>\<open>(r.get("size") or "").strip()\<close> raises
  \<^verbatim>\<open>AttributeError\<close> for a cell that is truthy and not a string.
\<close>

definition build_variation :: "string list \<Rightarrow> (string \<Rightarrow> cell) \<Rightarrow> py_error + variation" where
  "build_variation cols r =
     (case strip_method (or_empty (row_get cols r ''size'')) of
        Inl e \<Rightarrow> Inl e
      | Inr sz \<Rightarrow>
     (case parse_int (get_cell (row_get cols r ''pcs_inner'')) of
        Inl e \<Rightarrow> Inl e
      | Inr inner \<Rightarrow>
     (case parse_int (get_cell (row_get cols r ''pcs_outer'')) of
        Inl e \<Rightarrow> Inl e
      | Inr outer \<Rightarrow>
     (case parse_int (get_cell (row_get cols r ''loading_20gp'')) of
        Inl e \<Rightarrow> Inl e
      | Inr gp \<Rightarrow>
     (case parse_int (get_cell (row_get cols r ''loading_40hc'')) of
        Inl e \<Rightarrow> Inl e
      | Inr hc \<Rightarrow>
     (case strip_method (or_empty (row_get cols r ''carton_size'')) of
        Inl e \<Rightarrow> Inl e
      | Inr carton \<Rightarrow>
          Inr \<lparr>var_size = sz,
               var_picture = yesno_to_bool (get_cell (row_get cols r ''picture'')),
               var_ce = yesno_to_bool (get_cell (row_get cols r ''ce'')),
               var_ce_mdr = yesno_to_bool (get_cell (row_get cols r ''ce_mdr'')),
               var_fda = yesno_to_bool (get_cell (row_get cols r ''fda'')),
               var_iso = parse_iso_list (get_cell (row_get cols r ''iso'')),
               var_pcs_inner = inner,
               var_pcs_outer = outer,
               var_loading_20GP = gp,
               var_loading_40HC = hc,
               var_carton_size = carton\<rparr>))))))"

text \<open>The parent product: the fields of \<^verbatim>\<open>DEFAULT_PARENT\<close> and the list of variations.\<close>

record parent_product = xl_product +
  variations :: "variation list"

definition new_parent :: "string \<Rightarrow> string \<Rightarrow> string \<Rightarrow> parent_product" where
  "new_parent prod_name ref cat_name =
     \<lparr>name = prod_name, referenceString = ref, standard = [], description = [],
      tableInMd = [], category = None, categoryName = cat_name, divisions = [],
      divisionNames = [], images = [], PackagingInformation = default_packaging,
      variations = []\<rparr>"

text \<open>\<^verbatim>\<open>df[col] = df[col].ffill()\<close> for a column that exists.\<close>

definition ffill_column :: "string \<Rightarrow> frame \<Rightarrow> frame" where
  "ffill_column col df =
     (if col \<in> set (df_columns df)
      then df\<lparr>df_rows := map (\<lambda>(r, v). r(col := v))
                            (zip (df_rows df) (ffill (map (\<lambda>r. r col) (df_rows df))))\<rparr>
      else df)"

text \<open>
  \<^verbatim>\<open>df[df["size"].astype(str).str.strip().ne("")]\<close>: \<^verbatim>\<open>astype(str)\<close> turns a blank cell
  (\<^verbatim>\<open>NaN\<close>) into the text \<^verbatim>\<open>nan\<close>.
\<close>

definition has_size :: "(string \<Rightarrow> cell) \<Rightarrow> bool" where
  "has_size r = (str_strip (cell_str (r ''size'')) \<noteq> [])"

definition keep_sized :: "frame \<Rightarrow> frame" where
  "keep_sized df =
     (if ''size'' \<in> set (df_columns df) then df\<lparr>df_rows := filter has_size (df_rows df)\<rparr>
      else df)"

text \<open>\<^verbatim>\<open>products[ref]["data"]["variations"].append(v)\<close>.\<close>

fun append_variation ::
  "(string \<times> parent_product) list \<Rightarrow> string \<Rightarrow> variation \<Rightarrow> (string \<times> parent_product) list" where
  "append_variation [] ref v = []"
| "append_variation ((k, p) # ps) ref v =
     (if k = ref then (k, p\<lparr>variations := variations p @ [v]\<rparr>) # ps
      else (k, p) # append_variation ps ref v)"

definition row_text :: "string list \<Rightarrow> (string \<Rightarrow> cell) \<Rightarrow> string \<Rightarrow> string" where
  "row_text cols r col = str_strip (cell_str (or_empty (row_get cols r col)))"

text \<open>
  The loop \<^verbatim>\<open>for _, r in df.iterrows()\<close>; \<^verbatim>\<open>products\<close> is a dictionary in insertion order.
  (Without \<^verbatim>\<open>--only-ref\<close> and \<^verbatim>\<open>--limit-variations\<close>.)
\<close>

fun group_rows ::
  "string list \<Rightarrow> (string \<Rightarrow> cell) list \<Rightarrow> (string \<times> parent_product) list
     \<Rightarrow> py_error + (string \<times> parent_product) list" where
  "group_rows cols [] products = Inr products"
| "group_rows cols (r # rs) products =
     (let ref = row_text cols r ''reference''
      in if ref = [] then group_rows cols rs products
         else let cat_name = row_text cols r ''category_name'';
                  prod_name = row_text cols r ''product_name'';
                  products1 = (if map_of products ref = None
                               then products @ [(ref, new_parent prod_name ref cat_name)]
                               else products)
              in case build_variation cols r of
                   Inl e \<Rightarrow> Inl e
                 | Inr v \<Rightarrow> group_rows cols rs (append_variation products1 ref v))"

definition prepare :: "frame \<Rightarrow> frame" where
  "prepare df =
     keep_sized (ffill_column ''category_name'' (ffill_column ''product_name''
       (ffill_column ''reference'' df)))"

definition group_frame :: "frame \<Rightarrow> py_error + (string \<times> parent_product) list" where
  "group_frame df = group_rows (df_columns (prepare df)) (df_rows (prepare df)) []"

text \<open>A row given by the cells of its columns; other names give \<^verbatim>\<open>NaN\<close>.\<close>

definition row_of :: "(string \<times> cell) list \<Rightarrow> string \<Rightarrow> cell" where
  "row_of kvs col = (case map_of kvs col of Some c \<Rightarrow> c | None \<Rightarrow> CNaN)"

definition example_frame :: frame where
  "example_frame =
     \<lparr>df_columns = [''reference'', ''size''],
      df_rows = [row_of [(''reference'', CStr ''1.1''), (''size'', CStr ''S'')],
                 row_of [(''reference'', CNaN), (''size'', CStr ''M'')],
                 row_of [(''reference'', CStr ''1.2''), (''size'', CStr ''L'')]]\<rparr>"

definition blank_size_frame :: frame where
  "blank_size_frame =
     \<lparr>df_columns = [''reference'', ''size''],
      df_rows = [row_of [(''reference'', CStr ''1.1''), (''size'', CStr ''S'')],
                 row_of [(''reference'', CNaN), (''size'', CNaN)]]\<rparr>"

text \<open>
  Claim C6. The frame has a row with size \<^verbatim>\<open>S\<close> for reference \<^verbatim>\<open>1.1\<close>, followed by a row
  whose reference and size cells are both blank. The blank size reaches the filter as
  \<^verbatim>\<open>NaN\<close>, which \<^verbatim>\<open>astype(str)\<close> turns into the text \<^verbatim>\<open>nan\<close>: the row is not dropped. Both
  rows reach the grouping loop, where \<^verbatim>\<open>build_variation\<close> raises \<^verbatim>\<open>AttributeError\<close> on the
  blank size, so no product is produced at all.
\<close>

theorem blank_size_row_not_dropped:
  "has_size (row_of [(''reference'', CNaN), (''size'', CNaN)]) \<and>
   length (df_rows (prepare blank_size_frame)) = 2 \<and>
   group_frame blank_size_frame = Inl AttributeError"
  by code_simp

subsection \<open>Forward-fill and grouping on frames that are grouped without error\<close>

lemma ffill_from_length: "length (ffill_from prev xs) = length xs"
  by (induction xs arbitrary: prev) auto

lemma ffill_from_nth:
  "i < length xs \<Longrightarrow>
   ffill_from prev xs ! i =
     (case filter (\<lambda>x. \<not> isna x) (take (Suc i) xs) of [] \<Rightarrow> prev | y # ys \<Rightarrow> last (y # ys))"
proof (induction xs arbitrary: prev i)
  case Nil
  then show ?case by simp
next
  case (Cons x xs)
  show ?case
  proof (cases i)
    case 0
    then show ?thesis by simp
  next
    case (Suc j)
    with Cons.prems have j: "j < length xs" by simp
    show ?thesis
    proof (cases "isna x")
      case True
      then show ?thesis using Suc Cons.IH [OF j, of prev] by simp
    next
      case False
      then show ?thesis
        using Suc Cons.IH [OF j, of x] by (simp split: list.splits)
    qed
  qed
qed

text \<open>The keys of \<^verbatim>\<open>products\<close> after one row was added for the reference \<open>k\<close>.\<close>

definition add_key :: "string list \<Rightarrow> string \<Rightarrow> string list" where
  "add_key ks k = (if k \<in> set ks then ks else ks @ [k])"

lemma foldl_add_key: "foldl add_key [] xs = rev (remdups (rev xs))"
proof (induction xs rule: rev_induct)
  case Nil
  show ?case by simp
next
  case (snoc x xs)
  have "set (rev (remdups (rev xs))) = set xs" by simp
  then show ?case using snoc by (simp add: add_key_def)
qed

lemma append_variation_keys: "map fst (append_variation ps k v) = map fst ps"
  by (induction ps) auto

lemma map_of_append_variation:
  "map_of (append_variation ps k v) k' =
     (if k' = k then map_option (\<lambda>p. p\<lparr>variations := variations p @ [v]\<rparr>) (map_of ps k)
      else map_of ps k')"
  by (induction ps) auto

text \<open>The reference of a row, and the variations that can be built from a list of rows.\<close>

definition ref_of :: "string list \<Rightarrow> (string \<Rightarrow> cell) \<Rightarrow> string" where
  "ref_of cols r = row_text cols r ''reference''"

definition built :: "string list \<Rightarrow> (string \<Rightarrow> cell) list \<Rightarrow> variation list" where
  "built cols rs =
     List.map_filter (\<lambda>r. case build_variation cols r of Inr v \<Rightarrow> Some v | Inl e \<Rightarrow> None) rs"

text \<open>The dictionary after the row \<open>r\<close>, whose variation is \<open>v\<close>, was processed.\<close>

definition after_row ::
  "string list \<Rightarrow> (string \<Rightarrow> cell) \<Rightarrow> (string \<times> parent_product) list \<Rightarrow> variation
     \<Rightarrow> (string \<times> parent_product) list" where
  "after_row cols r acc v =
     append_variation
       (if map_of acc (ref_of cols r) = None
        then acc @ [(ref_of cols r,
                     new_parent (row_text cols r ''product_name'') (ref_of cols r)
                       (row_text cols r ''category_name''))]
        else acc)
       (ref_of cols r) v"

lemma group_rows_Cons:
  "group_rows cols (r # rs) acc =
     (if ref_of cols r = [] then group_rows cols rs acc
      else case build_variation cols r of
             Inl e \<Rightarrow> Inl e
           | Inr v \<Rightarrow> group_rows cols rs (after_row cols r acc v))"
  by (simp add: ref_of_def after_row_def Let_def split: sum.splits)

lemma after_row_keys: "map fst (after_row cols r acc v) = add_key (map fst acc) (ref_of cols r)"
  by (auto simp: after_row_def append_variation_keys add_key_def map_of_eq_None_iff)

lemma map_of_after_row:
  "map_of (after_row cols r acc v) k =
     (if k = ref_of cols r
      then Some ((case map_of acc k of
                    Some p \<Rightarrow> p
                  | None \<Rightarrow> new_parent (row_text cols r ''product_name'') k
                              (row_text cols r ''category_name''))
                 \<lparr>variations :=
                    variations (case map_of acc k of
                                  Some p \<Rightarrow> p
                                | None \<Rightarrow> new_parent (row_text cols r ''product_name'') k
                                            (row_text cols r ''category_name'')) @ [v]\<rparr>)
      else map_of acc k)"
  by (auto simp: after_row_def map_of_append_variation map_add_def split: option.splits)

lemma group_rows_keys:
  "group_rows cols rs acc = Inr ps \<Longrightarrow>
   map fst ps = foldl add_key (map fst acc) (filter (\<lambda>k. k \<noteq> []) (map (ref_of cols) rs))"
proof (induction rs arbitrary: acc)
  case Nil
  then show ?case by simp
next
  case (Cons r rs)
  show ?case
  proof (cases "ref_of cols r = []")
    case True
    with Cons.prems have "group_rows cols rs acc = Inr ps"
      by (simp add: group_rows_Cons del: group_rows.simps)
    from Cons.IH [OF this] True show ?thesis by simp
  next
    case False
    with Cons.prems obtain v where v: "build_variation cols r = Inr v"
      and rest: "group_rows cols rs (after_row cols r acc v) = Inr ps"
      by (auto simp: group_rows_Cons simp del: group_rows.simps split: sum.splits)
    from Cons.IH [OF rest] False show ?thesis by (simp add: after_row_keys)
  qed
qed

lemma group_rows_built:
  "group_rows cols rs acc = Inr ps \<Longrightarrow> r \<in> set rs \<Longrightarrow> ref_of cols r \<noteq> [] \<Longrightarrow>
   \<exists>v. build_variation cols r = Inr v"
proof (induction rs arbitrary: acc)
  case Nil
  then show ?case by simp
next
  case (Cons r0 rs)
  show ?case
  proof (cases "ref_of cols r0 = []")
    case True
    with Cons.prems(1) have "group_rows cols rs acc = Inr ps"
      by (simp add: group_rows_Cons del: group_rows.simps)
    moreover from True Cons.prems(2,3) have "r \<in> set rs" by auto
    ultimately show ?thesis using Cons.IH Cons.prems(3) by blast
  next
    case False
    with Cons.prems(1) obtain v where v: "build_variation cols r0 = Inr v"
      and rest: "group_rows cols rs (after_row cols r0 acc v) = Inr ps"
      by (auto simp: group_rows_Cons simp del: group_rows.simps split: sum.splits)
    show ?thesis
    proof (cases "r = r0")
      case True
      then show ?thesis using v by blast
    next
      case False
      with Cons.prems(2) have "r \<in> set rs" by simp
      then show ?thesis using Cons.IH [OF rest _ Cons.prems(3)] by blast
    qed
  qed
qed

text \<open>
  The entry of a reference \<open>k\<close> after the loop: the entry it had before (or a new parent
  seeded from the first row of \<open>k\<close>), with the variations of the rows of \<open>k\<close> appended in
  row order.
\<close>

lemma group_rows_entry:
  assumes "group_rows cols rs acc = Inr ps" and "k \<noteq> []"
  shows "map_of ps k =
     (case filter (\<lambda>r. ref_of cols r = k) rs of
        [] \<Rightarrow> map_of acc k
      | r0 # more_rows \<Rightarrow>
          Some ((case map_of acc k of
                   Some p \<Rightarrow> p
                 | None \<Rightarrow> new_parent (row_text cols r0 ''product_name'') k
                             (row_text cols r0 ''category_name''))
                \<lparr>variations :=
                   variations (case map_of acc k of
                                 Some p \<Rightarrow> p
                               | None \<Rightarrow> new_parent (row_text cols r0 ''product_name'') k
                                           (row_text cols r0 ''category_name''))
                   @ built cols (r0 # more_rows)\<rparr>))"
  using assms(1)
proof (induction rs arbitrary: acc)
  case Nil
  then show ?case by simp
next
  case (Cons r rs)
  show ?case
  proof (cases "ref_of cols r = []")
    case True
    with Cons.prems have "group_rows cols rs acc = Inr ps"
      by (simp add: group_rows_Cons del: group_rows.simps)
    from Cons.IH [OF this] True assms(2) show ?thesis by simp
  next
    case False
    with Cons.prems obtain v where v: "build_variation cols r = Inr v"
      and rest: "group_rows cols rs (after_row cols r acc v) = Inr ps"
      by (auto simp: group_rows_Cons simp del: group_rows.simps split: sum.splits)
    note IH = Cons.IH [OF rest]
    show ?thesis
    proof (cases "ref_of cols r = k")
      case False
      then have "k \<noteq> ref_of cols r" by auto
      then have m: "map_of (after_row cols r acc v) k = map_of acc k"
        by (simp add: map_of_after_row)
      from False have "filter (\<lambda>r. ref_of cols r = k) (r # rs) = filter (\<lambda>r. ref_of cols r = k) rs"
        by simp
      then show ?thesis using IH unfolding m by simp
    next
      case True
      have b: "built cols (r # xs) = v # built cols xs" for xs
        using v by (simp add: built_def)
      have m: "map_of (after_row cols r acc v) k =
          Some ((case map_of acc k of
                    Some p \<Rightarrow> p
                  | None \<Rightarrow> new_parent (row_text cols r ''product_name'') k
                              (row_text cols r ''category_name''))
                 \<lparr>variations :=
                    variations (case map_of acc k of
                                  Some p \<Rightarrow> p
                                | None \<Rightarrow> new_parent (row_text cols r ''product_name'') k
                                            (row_text cols r ''category_name'')) @ [v]\<rparr>)"
        using True by (simp add: map_of_after_row)
      have f: "filter (\<lambda>r. ref_of cols r = k) (r # rs) = r # filter (\<lambda>r. ref_of cols r = k) rs"
        using True by simp
      show ?thesis
      proof (cases "filter (\<lambda>r. ref_of cols r = k) rs")
        case Nil
        then show ?thesis
          using IH unfolding m f by (simp add: built_def v)
      next
        case (Cons r1 rest1)
        then show ?thesis
          using IH unfolding m f by (simp add: b)
      qed
    qed
  qed
qed

text \<open>
  Forward-fill: every cell of the filled column holds the last non-blank cell at or
  above it, and stays blank when there is none; the column keeps its length.
\<close>

theorem ffill_nearest_preceding:
  "length (ffill xs) = length xs \<and>
   (i < length xs \<longrightarrow>
      ffill xs ! i =
        (case filter (\<lambda>x. \<not> isna x) (take (Suc i) xs) of
           [] \<Rightarrow> CNaN
         | y # ys \<Rightarrow> last (y # ys)))"
  unfolding ffill_def using ffill_from_nth [of i xs CNaN] by (simp add: ffill_from_length)

theorem ffill_nearest_preceding_witness:
  "ffill [CStr ''1.1'', CNaN, CStr ''1.2'', CNaN] ! 3 = CStr ''1.2''"
  using ffill_nearest_preceding [of "[CStr ''1.1'', CNaN, CStr ''1.2'', CNaN]" 3]
  by (simp add: isna_def)

text \<open>
  Grouping, when the loop ends without an exception: the references of the products
  are the non-empty references of the rows in first-seen order; every product is
  seeded (name, category name) from the first row of its reference and holds the
  variations of exactly the rows of that reference, in row order. The three rows
  \<^verbatim>\<open>(1.1, S)\<close>, \<^verbatim>\<open>(blank, M)\<close>, \<^verbatim>\<open>(1.2, L)\<close> give \<^verbatim>\<open>1.1\<close> with \<^verbatim>\<open>[S, M]\<close> and \<^verbatim>\<open>1.2\<close> with \<^verbatim>\<open>[L]\<close>.
\<close>

theorem group_frame_first_seen:
  assumes "group_frame df = Inr ps"
  shows "map fst ps =
           rev (remdups (rev (filter (\<lambda>k. k \<noteq> [])
                  (map (ref_of (df_columns (prepare df))) (df_rows (prepare df)))))) \<and>
         (\<forall>k p. map_of ps k = Some p \<longrightarrow>
            (\<exists>r0 others.
               filter (\<lambda>r. ref_of (df_columns (prepare df)) r = k) (df_rows (prepare df))
                 = r0 # others \<and>
               p = (new_parent (row_text (df_columns (prepare df)) r0 ''product_name'') k
                      (row_text (df_columns (prepare df)) r0 ''category_name''))
                   \<lparr>variations := built (df_columns (prepare df)) (r0 # others)\<rparr> \<and>
               map (build_variation (df_columns (prepare df))) (r0 # others)
                 = map Inr (variations p))) \<and>
         (case group_frame example_frame of
            Inr qs \<Rightarrow> map (\<lambda>(k, p). (k, map var_size (variations p))) qs
          | Inl e \<Rightarrow> [])
           = [(''1.1'', [''S'', ''M'']), (''1.2'', [''L''])]"
proof -
  let ?cols = "df_columns (prepare df)"
  let ?rs = "df_rows (prepare df)"
  from assms have run: "group_rows ?cols ?rs [] = Inr ps" by (simp add: group_frame_def)
  have keys: "map fst ps = rev (remdups (rev (filter (\<lambda>k. k \<noteq> []) (map (ref_of ?cols) ?rs))))"
    using group_rows_keys [OF run] by (simp add: foldl_add_key)
  have entries: "\<forall>k p. map_of ps k = Some p \<longrightarrow>
            (\<exists>r0 others.
               filter (\<lambda>r. ref_of ?cols r = k) ?rs = r0 # others \<and>
               p = (new_parent (row_text ?cols r0 ''product_name'') k
                      (row_text ?cols r0 ''category_name''))
                   \<lparr>variations := built ?cols (r0 # others)\<rparr> \<and>
               map (build_variation ?cols) (r0 # others) = map Inr (variations p))"
  proof (intro allI impI)
    fix k p assume kp: "map_of ps k = Some p"
    then have "k \<in> set (map fst ps)" by (metis map_of_eq_None_iff option.distinct(1) set_map)
    then have k: "k \<noteq> []" unfolding keys by auto
    from group_rows_entry [OF run k] kp
    obtain r0 others where f: "filter (\<lambda>r. ref_of ?cols r = k) ?rs = r0 # others"
      and p: "p = (new_parent (row_text ?cols r0 ''product_name'') k
                      (row_text ?cols r0 ''category_name''))
                   \<lparr>variations := built ?cols (r0 # others)\<rparr>"
      by (auto simp: new_parent_def split: list.splits)
    have "\<forall>r \<in> set (r0 # others). \<exists>v. build_variation ?cols r = Inr v"
    proof
      fix r assume "r \<in> set (r0 # others)"
      then have "r \<in> set (filter (\<lambda>r. ref_of ?cols r = k) ?rs)" unfolding f .
      then have "r \<in> set ?rs" and "ref_of ?cols r \<noteq> []" using k by auto
      then show "\<exists>v. build_variation ?cols r = Inr v" by (rule group_rows_built [OF run])
    qed
    then have all_built: "map (build_variation ?cols) xs = map Inr (built ?cols xs)"
      if "set xs \<subseteq> set (r0 # others)" for xs
      using that by (induction xs) (auto simp: built_def)
    have "map (build_variation ?cols) (r0 # others) = map Inr (variations p)"
      unfolding p using all_built [of "r0 # others"] by simp
    with f p show "\<exists>r0 others.
               filter (\<lambda>r. ref_of ?cols r = k) ?rs = r0 # others \<and>
               p = (new_parent (row_text ?cols r0 ''product_name'') k
                      (row_text ?cols r0 ''category_name''))
                   \<lparr>variations := built ?cols (r0 # others)\<rparr> \<and>
               map (build_variation ?cols) (r0 # others) = map Inr (variations p)"
      by blast
  qed
  have example: "(case group_frame example_frame of
            Inr qs \<Rightarrow> map (\<lambda>(k, p). (k, map var_size (variations p))) qs
          | Inl e \<Rightarrow> [])
           = [(''1.1'', [''S'', ''M'']), (''1.2'', [''L''])]"
    by code_simp
  show ?thesis by (rule conjI [OF keys conjI [OF entries example]])
qed

lemma example_frame_groups:
  "(case group_frame example_frame of Inr qs \<Rightarrow> map fst qs | Inl e \<Rightarrow> []) = [''1.1'', ''1.2'']"
  by code_simp

theorem group_frame_first_seen_witness:
  "\<exists>qs. group_frame example_frame = Inr qs \<and>
     map fst qs =
       rev (remdups (rev (filter (\<lambda>k. k \<noteq> [])
          (map (ref_of (df_columns (prepare example_frame))) (df_rows (prepare example_frame))))))"
proof -
  from example_frame_groups obtain qs where run: "group_frame example_frame = Inr qs"
    by (cases "group_frame example_frame") auto
  from group_frame_first_seen [OF run] have "map fst qs =
       rev (remdups (rev (filter (\<lambda>k. k \<noteq> [])
          (map (ref_of (df_columns (prepare example_frame))) (df_rows (prepare example_frame))))))"
    by (rule conjunct1)
  with run show ?thesis by blast
qed

text \<open>
  The boolean parser: true exactly for a cell that is not blank and whose stripped,
  lower-cased text is one of \<^verbatim>\<open>yes\<close>, \<^verbatim>\<open>y\<close>, \<^verbatim>\<open>true\<close>, \<^verbatim>\<open>1\<close>.
\<close>

theorem yesno_to_bool_vocabulary:
  "yesno_to_bool x =
     (\<not> isna x \<and> str_lower (str_strip (cell_str x)) \<in> {''yes'', ''y'', ''true'', ''1''}) \<and>
   yesno_to_bool (CStr ''YES'') = True \<and>
   yesno_to_bool (CStr ''n/a'') = False \<and>
   yesno_to_bool (CStr []) = False \<and>
   yesno_to_bool (get_cell None) = False"
proof -
  have "yesno_to_bool x =
     (\<not> isna x \<and> str_lower (str_strip (cell_str x)) \<in> {''yes'', ''y'', ''true'', ''1''})"
    by (simp add: yesno_to_bool_def)
  moreover have "yesno_to_bool (CStr ''YES'') = True" by code_simp
  moreover have "yesno_to_bool (CStr ''n/a'') = False" by code_simp
  moreover have "yesno_to_bool (CStr []) = False" by code_simp
  moreover have "yesno_to_bool (get_cell None) = False" by code_simp
  ultimately show ?thesis by (intro conjI)
qed

text \<open>
  The list parser splits at \<^verbatim>\<open>/\<close>, \<^verbatim>\<open>,\<close> and \<^verbatim>\<open>;\<close>, trims the parts and drops the empty ones;
  a placeholder gives the empty list.
\<close>

theorem parse_iso_list_examples:
  "parse_iso_list (CStr ''ISO 1/ISO 2; ISO 3'') = [''ISO 1'', ''ISO 2'', ''ISO 3''] \<and>
   parse_iso_list (CStr ''-'') = [] \<and>
   parse_iso_list CNaN = []"
  by code_simp

end
